theory Spec2Isabelle
  imports Complex_Main "HOL-Library.Log_Nat" "HOL-Library.AList" "HOL-Library.Multiset"
begin

section \<open>JavaScript numbers\<close>

text \<open>
  A JavaScript Number is an IEEE 754 binary64 value. A finite one is held as the exact
  rational it denotes; the two zeros are not told apart (no operation of the program
  distinguishes them).
\<close>

datatype number = NaN | PosInfinity | NegInfinity | Finite rat

definition pow2 :: "int \<Rightarrow> rat" where
  "pow2 k = (if 0 \<le> k then 2 ^ nat k else 1 / 2 ^ nat (- k))"

text \<open>
  The exponent \<open>e\<close> with \<open>2 ^ e \<le> x < 2 ^ (e + 1)\<close>, for \<open>0 < x\<close>: one less than the
  number of bits of the integer part when \<open>1 \<le> x\<close>, and otherwise the least \<open>k\<close> with
  \<open>1 / x \<le> 2 ^ k\<close>, negated.
\<close>

definition ilog2 :: "rat \<Rightarrow> int" where
  "ilog2 x =
     (if 1 \<le> x then int (floorlog 2 (nat \<lfloor>x\<rfloor>)) - 1
      else - int (floorlog 2 (nat (\<lceil>1 / x\<rceil> - 1))))"

definition roundTiesToEven :: "rat \<Rightarrow> int" where
  "roundTiesToEven m =
     (let f = \<lfloor>m\<rfloor>; r = m - of_int f
      in if r < 1 / 2 then f
         else if 1 / 2 < r then f + 1
         else if even f then f else f + 1)"

text \<open>
  Rounding of an exact result to binary64: 53 significant bits, least exponent
  \<open>-1074\<close> (subnormal numbers), ties to even, overflow to an infinity. The rounded
  value is \<open>n * 2 ^ q\<close> with \<open>\<bar>n\<bar> \<le> 2 ^ 53\<close>; it overflows when it reaches
  \<open>2 ^ 1024 = 2 ^ 53 * 2 ^ 971\<close>.
\<close>

definition round64 :: "rat \<Rightarrow> number" where
  "round64 x =
     (if x = 0 then Finite 0
      else let q = max (ilog2 \<bar>x\<bar> - 52) (- 1074);
               n = roundTiesToEven (x / pow2 q)
           in if 971 < q \<or> (q = 971 \<and> 2 ^ 53 \<le> \<bar>n\<bar>)
              then (if 0 < x then PosInfinity else NegInfinity)
              else Finite (of_int n * pow2 q))"

text \<open>The operators \<open>+\<close> and \<open>-\<close> on two Numbers.\<close>

fun js_add :: "number \<Rightarrow> number \<Rightarrow> number" where
  "js_add NaN _ = NaN"
| "js_add _ NaN = NaN"
| "js_add PosInfinity NegInfinity = NaN"
| "js_add NegInfinity PosInfinity = NaN"
| "js_add PosInfinity _ = PosInfinity"
| "js_add _ PosInfinity = PosInfinity"
| "js_add NegInfinity _ = NegInfinity"
| "js_add _ NegInfinity = NegInfinity"
| "js_add (Finite a) (Finite b) = round64 (a + b)"

fun js_neg :: "number \<Rightarrow> number" where
  "js_neg NaN = NaN"
| "js_neg PosInfinity = NegInfinity"
| "js_neg NegInfinity = PosInfinity"
| "js_neg (Finite a) = Finite (- a)"

definition js_sub :: "number \<Rightarrow> number \<Rightarrow> number" where
  "js_sub x y = js_add x (js_neg y)"

section \<open>Strings and Numbers\<close>

definition is_digit :: "char \<Rightarrow> bool" where
  "is_digit c = (c \<in> set ''0123456789'')"

definition digit_val :: "char \<Rightarrow> nat" where
  "digit_val c = of_char c - 48"

definition digits_val :: "string \<Rightarrow> nat" where
  "digits_val ds = foldl (\<lambda>n c. 10 * n + digit_val c) 0 ds"

definition digit_char :: "nat \<Rightarrow> char" where
  "digit_char n = char_of (48 + n)"

text \<open>The decimal digits of a natural number, most significant first.\<close>

fun decimal :: "nat \<Rightarrow> string" where
  "decimal n = (if n < 10 then [digit_char n] else decimal (n div 10) @ [digit_char (n mod 10)])"

declare decimal.simps [simp del]

text \<open>
  \<open>Number.prototype.toString\<close> on an integer of at most 21 digits, which is what
  \<open>Date.now()\<close> returns.
\<close>

definition toString_int :: "int \<Rightarrow> string" where
  "toString_int k = (if k < 0 then CHR ''-'' # decimal (nat (- k)) else decimal (nat k))"

text \<open>
  The white space that \<open>parseFloat\<close> skips. Characters are bytes here: the white space
  of ECMAScript beyond ASCII is not in this alphabet.
\<close>

definition is_space :: "char \<Rightarrow> bool" where
  "is_space c = (of_char c \<in> {9, 10, 11, 12, 13, 32 :: nat})"

text \<open>An optional sign: whether it is a minus, and the rest.\<close>

fun sign_rest :: "string \<Rightarrow> bool \<times> string" where
  "sign_rest (c # r) =
     (if c = CHR ''-'' then (True, r) else if c = CHR ''+'' then (False, r) else (False, c # r))"
| "sign_rest [] = (False, [])"

text \<open>The value of the exponent part at the head of a string, 0 when there is none.\<close>

fun exponent_part :: "string \<Rightarrow> int" where
  "exponent_part (c # r) =
     (if c = CHR ''e'' \<or> c = CHR ''E''
      then (let (neg, d) = sign_rest r; ds = takeWhile is_digit d
            in if ds = [] then 0
               else if neg then - int (digits_val ds) else int (digits_val ds))
      else 0)"
| "exponent_part [] = 0"

definition pow10 :: "int \<Rightarrow> rat" where
  "pow10 k = (if 0 \<le> k then 10 ^ nat k else 1 / 10 ^ nat (- k))"

text \<open>
  \<open>parseFloat\<close>: skip white space, read the longest prefix that is a decimal literal
  (sign, \<open>Infinity\<close> or digits with an optional fraction and exponent), and round its
  value to binary64; \<open>NaN\<close> when there is no such prefix.
\<close>

definition parseFloat :: "string \<Rightarrow> number" where
  "parseFloat s =
     (let (neg, u) = sign_rest (dropWhile is_space s)
      in if take 8 u = ''Infinity'' then (if neg then NegInfinity else PosInfinity)
         else
           let ip = takeWhile is_digit u;
               r1 = dropWhile is_digit u;
               (fp, r2) = (case r1 of
                    c # r \<Rightarrow> if c = CHR ''.''
                             then (takeWhile is_digit r, dropWhile is_digit r) else ([], r1)
                  | [] \<Rightarrow> ([], r1))
           in if ip = [] \<and> fp = [] then NaN
              else
                let m = of_nat (digits_val (ip @ fp)) * pow10 (exponent_part r2 - int (length fp))
                in round64 (if neg then - m else m))"

text \<open>
  \<open>Number::toString\<close> of a finite value \<open>0 < a\<close>. The integers \<open>n\<close>, \<open>k\<close> and \<open>s\<close> of
  the standard: \<open>s\<close> has \<open>k\<close> digits, \<open>s * 10 ^ (n - k)\<close> rounds to the value and \<open>k\<close>
  is as small as possible (at most 17); of two such \<open>s\<close> the closer one, the even one on
  a tie. \<open>decimal_exponent\<close> is the \<open>n\<close> with \<open>10 ^ (n - 1) \<le> a < 10 ^ n\<close>.
\<close>

definition decimal_exponent :: "rat \<Rightarrow> int" where
  "decimal_exponent a =
     (if 1 \<le> a then int (length (decimal (nat \<lfloor>a\<rfloor>)))
      else 1 - int (length (decimal (nat (\<lceil>1 / a\<rceil> - 1)))))"

definition toString_cands :: "rat \<Rightarrow> int \<Rightarrow> nat \<Rightarrow> nat list" where
  "toString_cands a n k =
     (let p = pow10 (n - int k); lo = nat \<lfloor>a / p\<rfloor>
      in filter (\<lambda>c. round64 (of_nat c * p) = Finite a) [lo, lo + 1])"

definition toString_pick :: "rat \<Rightarrow> int \<Rightarrow> nat \<Rightarrow> nat option" where
  "toString_pick a n k =
     (let p = pow10 (n - int k)
      in case toString_cands a n k of
           [] \<Rightarrow> None
         | [c] \<Rightarrow> Some c
         | c # d # _ \<Rightarrow>
             (let dc = \<bar>of_nat c * p - a\<bar>; dd = \<bar>of_nat d * p - a\<bar>
              in if dc < dd then Some c else if dd < dc then Some d
                 else if even c then Some c else Some d))"

fun toString_search :: "rat \<Rightarrow> int \<Rightarrow> nat list \<Rightarrow> (nat \<times> nat) option" where
  "toString_search a n [] = None"
| "toString_search a n (k # ks) =
     (case toString_pick a n k of
        Some c \<Rightarrow> Some (k, c)
      | None \<Rightarrow> toString_search a n ks)"

text \<open>
  The digits of \<open>s\<close> are then laid out by \<open>n\<close>: an integer, a decimal fraction, or the
  exponential notation when \<open>n\<close> is above 21 or below \<open>-5\<close>.
\<close>

definition toString_positive :: "rat \<Rightarrow> string" where
  "toString_positive a =
     (let n0 = decimal_exponent a
      in case toString_search a n0 [1 ..< 18] of
           None \<Rightarrow> []
         | Some (k, c) \<Rightarrow>
             (let (s, n) = (if c = 10 ^ k then (10 ^ (k - 1), n0 + 1) else (c, n0));
                  ds = decimal s
              in if int k \<le> n \<and> n \<le> 21 then ds @ replicate (nat (n - int k)) CHR ''0''
                 else if 0 < n \<and> n \<le> 21 then take (nat n) ds @ ''.'' @ drop (nat n) ds
                 else if - 6 < n \<and> n \<le> 0 then ''0.'' @ replicate (nat (- n)) CHR ''0'' @ ds
                 else (if k = 1 then ds else take 1 ds @ ''.'' @ drop 1 ds)
                      @ (if 0 < n then ''e+'' else ''e-'') @ decimal (nat \<bar>n - 1\<bar>)))"

definition Number_toString :: "number \<Rightarrow> string" where
  "Number_toString x =
     (case x of
        NaN \<Rightarrow> ''NaN''
      | PosInfinity \<Rightarrow> ''Infinity''
      | NegInfinity \<Rightarrow> ''-Infinity''
      | Finite v \<Rightarrow>
          if v = 0 then ''0''
          else if v < 0 then ''-'' @ toString_positive (- v)
          else toString_positive v)"

text \<open>
  \<open>x.toFixed(2)\<close>: the integer \<open>n\<close> with \<open>n / 100\<close> closest to the value, the larger
  one on a tie, written with two fraction digits; values of at least \<open>10 ^ 21\<close> and
  the non-finite ones as \<open>toString\<close> writes them.
\<close>

definition toFixed2 :: "number \<Rightarrow> string" where
  "toFixed2 x =
     (case x of
        NaN \<Rightarrow> ''NaN''
      | PosInfinity \<Rightarrow> ''Infinity''
      | NegInfinity \<Rightarrow> ''-Infinity''
      | Finite v \<Rightarrow>
          (let s = (if v < 0 then ''-'' else []); a = \<bar>v\<bar>
           in if 10 ^ 21 \<le> a then s @ toString_positive a
              else
                let m = decimal (nat \<lfloor>a * 100 + 1 / 2\<rfloor>);
                    m' = (if length m \<le> 2 then replicate (3 - length m) CHR ''0'' @ m else m)
                in s @ take (length m' - 2) m' @ ''.'' @ drop (length m' - 2) m'))"

section \<open>The entry ledger and the form\<close>

text \<open>
  An entry is a plain object with string fields, as the form writes them. The form draft
  \<open>currentEntry\<close> is the same kind of object; it has no \<open>id\<close> property unless it was
  copied from a ledger entry by \<open>handleEdit\<close>. An absent \<open>id\<close> is \<open>None\<close>.
\<close>

record entry =
  id_e :: "string option"
  type :: string
  amount :: string
  category :: string
  description :: string
  date :: string

definition CATEGORIES :: "string \<Rightarrow> string list" where
  "CATEGORIES t =
     (if t = ''income'' then [''Salary'', ''Freelance'', ''Investment'', ''Gift'', ''Other'']
      else if t = ''expense''
      then [''Food'', ''Transport'', ''Entertainment'', ''Bills'', ''Shopping'', ''Health'',
            ''Education'', ''Other'']
      else [])"

text \<open>
  The component state: \<open>editingId\<close> is \<open>null\<close> (\<open>None\<close>) or the \<open>id\<close> of the entry
  being edited.
\<close>

record state =
  entries :: "entry list"
  currentEntry :: entry
  editingId :: "string option"

text \<open>What \<open>if (v)\<close>, \<open>!v\<close> and \<open>v || w\<close> test: \<open>null\<close>, \<open>undefined\<close> and the empty string are falsy.\<close>

definition truthy :: "string option \<Rightarrow> bool" where
  "truthy v = (case v of None \<Rightarrow> False | Some s \<Rightarrow> s \<noteq> [])"

text \<open>
  The draft that the form is reset to; \<open>today\<close> is \<open>format(new Date(), 'yyyy-MM-dd')\<close>.
\<close>

definition blankEntry :: "string \<Rightarrow> entry" where
  "blankEntry today =
     \<lparr>id_e = None, type = ''expense'', amount = [], category = ''Food'', description = [],
      date = today\<rparr>"

definition initState :: "string \<Rightarrow> state" where
  "initState today = \<lparr>entries = [], currentEntry = blankEntry today, editingId = None\<rparr>"

text \<open>
  The object built in \<open>handleSubmit\<close>: \<open>{id: editingId || Date.now().toString(),
  ...currentEntry, amount: parseFloat(currentEntry.amount).toFixed(2)}\<close>. The spread comes
  after \<open>id\<close>, so an \<open>id\<close> of the draft wins. \<open>now\<close> is \<open>Date.now()\<close>.
\<close>

definition newEntry :: "int \<Rightarrow> state \<Rightarrow> entry" where
  "newEntry now st =
     (currentEntry st)
       \<lparr>id_e := (case id_e (currentEntry st) of
                   Some i \<Rightarrow> Some i
                 | None \<Rightarrow> (if truthy (editingId st) then editingId st
                            else Some (toString_int now))),
        amount := toFixed2 (parseFloat (amount (currentEntry st)))\<rparr>"

definition handleSubmit :: "int \<Rightarrow> string \<Rightarrow> state \<Rightarrow> state" where
  "handleSubmit now today st =
     (if amount (currentEntry st) = [] \<or> category (currentEntry st) = [] then st
      else
        let entry = newEntry now st
        in if truthy (editingId st)
           then \<lparr>entries = map (\<lambda>e. if id_e e = editingId st then entry else e) (entries st),
                 currentEntry = blankEntry today, editingId = None\<rparr>
           else \<lparr>entries = entries st @ [entry],
                 currentEntry = blankEntry today, editingId = editingId st\<rparr>)"

definition handleEdit :: "entry \<Rightarrow> state \<Rightarrow> state" where
  "handleEdit entry st = st\<lparr>currentEntry := entry, editingId := id_e entry\<rparr>"

definition handleDelete :: "string option \<Rightarrow> state \<Rightarrow> state" where
  "handleDelete i st = st\<lparr>entries := filter (\<lambda>e. id_e e \<noteq> i) (entries st)\<rparr>"

definition cancelEdit :: "string \<Rightarrow> state \<Rightarrow> state" where
  "cancelEdit today st = st\<lparr>editingId := None, currentEntry := blankEntry today\<rparr>"

text \<open>
  The effect that depends on \<open>currentEntry.type\<close>: when an event has changed the type of
  the draft, its category becomes the first category of the new type.
\<close>

definition categoryEffect :: "state \<Rightarrow> state \<Rightarrow> state" where
  "categoryEffect before after =
     (if type (currentEntry after) = type (currentEntry before) then after
      else after\<lparr>currentEntry := (currentEntry after)
             \<lparr>category := (if type (currentEntry after) = ''income''
                            then CATEGORIES ''income'' ! 0 else CATEGORIES ''expense'' ! 0)\<rparr>\<rparr>)"

text \<open>
  The events of the user interface. The list shows the last ten entries of the ledger
  (\<open>entries.slice(-10)\<close>), each with an edit and a delete button, so these two events
  name a position among the last ten. \<open>Submit\<close> carries \<open>Date.now()\<close> and today's
  date, \<open>CancelEdit\<close> today's date.
\<close>

definition listed :: "state \<Rightarrow> nat \<Rightarrow> bool" where
  "listed st k = (k < length (entries st) \<and> length (entries st) \<le> k + 10)"

datatype event =
    SetType string
  | SetAmount string
  | SetCategory string
  | SetDescription string
  | SetDate string
  | Edit nat
  | Delete nat
  | Submit int string
  | CancelEdit string

fun handle :: "event \<Rightarrow> state \<Rightarrow> state" where
  "handle (SetType v) st = st\<lparr>currentEntry := (currentEntry st)\<lparr>type := v\<rparr>\<rparr>"
| "handle (SetAmount v) st = st\<lparr>currentEntry := (currentEntry st)\<lparr>amount := v\<rparr>\<rparr>"
| "handle (SetCategory v) st = st\<lparr>currentEntry := (currentEntry st)\<lparr>category := v\<rparr>\<rparr>"
| "handle (SetDescription v) st = st\<lparr>currentEntry := (currentEntry st)\<lparr>description := v\<rparr>\<rparr>"
| "handle (SetDate v) st = st\<lparr>currentEntry := (currentEntry st)\<lparr>date := v\<rparr>\<rparr>"
| "handle (Edit k) st = (if listed st k then handleEdit (entries st ! k) st else st)"
| "handle (Delete k) st = (if listed st k then handleDelete (id_e (entries st ! k)) st else st)"
| "handle (Submit now today) st = handleSubmit now today st"
| "handle (CancelEdit today) st = cancelEdit today st"

definition step :: "state \<Rightarrow> event \<Rightarrow> state" where
  "step st ev = categoryEffect st (handle ev st)"

definition run :: "state \<Rightarrow> event list \<Rightarrow> state" where
  "run st evs = foldl step st evs"

text \<open>The clock readings of the submissions that append an entry, in order.\<close>

fun submit_times :: "event list \<Rightarrow> int list" where
  "submit_times [] = []"
| "submit_times (Submit now today # evs) = now # submit_times evs"
| "submit_times (ev # evs) = submit_times evs"

section \<open>Calendar dates\<close>

text \<open>
  The local calendar date of a JavaScript \<open>Date\<close>: \<open>getFullYear()\<close>, \<open>getMonth()\<close>
  (0 to 11) and \<open>getDate()\<close> (1 to 31). An Invalid Date is \<open>None\<close>.
\<close>

record ymd =
  year :: int
  month :: nat
  day :: nat

text \<open>
  \<open>parseISO\<close> belongs to the date library, not to this program, and what it returns
  depends on the time zone; the aggregation functions take it as a parameter.
\<close>

type_synonym parser = "string \<Rightarrow> ymd option"

definition isSameMonth :: "ymd option \<Rightarrow> ymd option \<Rightarrow> bool" where
  "isSameMonth a b =
     (case (a, b) of
        (Some x, Some y) \<Rightarrow> year x = year y \<and> month x = month y
      | _ \<Rightarrow> False)"

definition leapYear :: "int \<Rightarrow> bool" where
  "leapYear y = (y mod 4 = 0 \<and> (y mod 400 = 0 \<or> y mod 100 \<noteq> 0))"

definition daysInMonth :: "int \<Rightarrow> nat \<Rightarrow> nat" where
  "daysInMonth y m =
     (if m = 1 then (if leapYear y then 29 else 28)
      else if m = 3 \<or> m = 5 \<or> m = 8 \<or> m = 10 then 30 else 31)"

text \<open>
  \<open>Date.prototype.setMonth(m)\<close> keeps the day of the month and normalises: \<open>m\<close> outside
  0 to 11 moves the year, and a day that the target month does not have runs over into
  the month after it. The day of a calendar date is at most 31 and a month has at least
  28 days, so the excess is at most 3 days. The time of day is kept and plays no part.
\<close>

definition setMonth :: "ymd \<Rightarrow> int \<Rightarrow> ymd" where
  "setMonth d m =
     (let ym = year d + m div 12; mn = nat (m mod 12); dim = daysInMonth ym mn
      in if day d \<le> dim then \<lparr>year = ym, month = mn, day = day d\<rparr>
         else if mn = 11 then \<lparr>year = ym + 1, month = 0, day = day d - dim\<rparr>
         else \<lparr>year = ym, month = mn + 1, day = day d - dim\<rparr>)"

definition monthNames :: "string list" where
  "monthNames = [''Jan'', ''Feb'', ''Mar'', ''Apr'', ''May'', ''Jun'',
                 ''Jul'', ''Aug'', ''Sep'', ''Oct'', ''Nov'', ''Dec'']"

text \<open>
  \<open>format(date, 'MMM yyyy')\<close>: the short month name and the year of the era, padded to
  four digits.
\<close>

definition format_MMM_yyyy :: "ymd \<Rightarrow> string" where
  "format_MMM_yyyy d =
     (let y = (if 0 < year d then year d else 1 - year d); ds = decimal (nat y)
      in monthNames ! month d @ '' '' @ replicate (4 - length ds) CHR ''0'' @ ds)"

section \<open>Aggregation\<close>

text \<open>
  The expression \<open>.filter(entry => entry.type === t).reduce((sum, entry) => sum +
  parseFloat(entry.amount), 0)\<close>, which the program writes out for every total.
\<close>

definition sumOfType :: "string \<Rightarrow> entry list \<Rightarrow> number" where
  "sumOfType t es =
     foldl (\<lambda>sum entry. js_add sum (parseFloat (amount entry))) (Finite 0)
       (filter (\<lambda>entry. type entry = t) es)"

subsection \<open>The object of the category breakdown\<close>

text \<open>
  The breakdown is accumulated in an object created by \<open>{}\<close>: it has its own
  properties, held here in the order in which they were created, and it inherits those
  of \<open>Object.prototype\<close>. The value of an own property is a Number or a String.
\<close>

datatype property = Num number | Str string

type_synonym object = "(string \<times> property) list"

text \<open>
  The function-valued properties of \<open>Object.prototype\<close>; its one other property is the
  accessor \<open>__proto__\<close>.
\<close>

definition Object_prototype_methods :: "string list" where
  "Object_prototype_methods =
     [''constructor'', ''__defineGetter__'', ''__defineSetter__'', ''hasOwnProperty'',
      ''__lookupGetter__'', ''__lookupSetter__'', ''isPrototypeOf'', ''propertyIsEnumerable'',
      ''toString'', ''valueOf'', ''toLocaleString'']"

text \<open>
  What \<open>acc[k]\<close> reads: the own property, else the inherited one (the getter of
  \<open>__proto__\<close> returns \<open>Object.prototype\<close> itself), else \<open>undefined\<close>.
\<close>

datatype reading = Undefined | Value property | Prototype | Method string

definition get_property :: "object \<Rightarrow> string \<Rightarrow> reading" where
  "get_property obj k =
     (case map_of obj k of
        Some v \<Rightarrow> Value v
      | None \<Rightarrow>
          if k = ''__proto__'' then Prototype
          else if k \<in> set Object_prototype_methods then Method k
          else Undefined)"

text \<open>\<open>v || 0\<close> for a Number \<open>v\<close>: a zero and \<open>NaN\<close> are falsy.\<close>

definition or_zero :: "number \<Rightarrow> number" where
  "or_zero v = (if v = NaN \<or> v = Finite 0 then Finite 0 else v)"

text \<open>
  \<open>v || 0\<close> for what was read: \<open>undefined\<close> and the empty string are falsy too, an
  object or a function is truthy.
\<close>

fun or_zero_reading :: "reading \<Rightarrow> reading" where
  "or_zero_reading Undefined = Value (Num (Finite 0))"
| "or_zero_reading (Value (Num v)) = Value (Num (or_zero v))"
| "or_zero_reading (Value (Str s)) = (if s = [] then Value (Num (Finite 0)) else Value (Str s))"
| "or_zero_reading Prototype = Prototype"
| "or_zero_reading (Method k) = Method k"

text \<open>
  The text of a built-in function, which is what \<open>+\<close> makes of it: the standard fixes
  its form and leaves the white space to the implementation; this is the text of V8
  (other engines break it into lines). The function at \<open>constructor\<close> is \<open>Object\<close>;
  the others are named as their property.
\<close>

definition function_source :: "string \<Rightarrow> string" where
  "function_source k =
     ''function '' @ (if k = ''constructor'' then ''Object'' else k) @ ''() { [native code] }''"

text \<open>
  \<open>v + x\<close> for a Number \<open>x\<close>: the sum of two Numbers; when \<open>v\<close> is a String, or an
  object or a function, whose primitive value is a String, the concatenation with
  \<open>x\<close> written out by \<open>toString\<close>.
\<close>

fun js_plus :: "reading \<Rightarrow> number \<Rightarrow> property" where
  "js_plus (Value (Num v)) x = Num (js_add v x)"
| "js_plus (Value (Str s)) x = Str (s @ Number_toString x)"
| "js_plus Prototype x = Str (''[object Object]'' @ Number_toString x)"
| "js_plus (Method k) x = Str (function_source k @ Number_toString x)"
| "js_plus Undefined x = Num NaN"

text \<open>
  \<open>acc[k] = v\<close> for a Number or a String \<open>v\<close>: the setter of \<open>__proto__\<close> ignores a
  value that is neither an object nor \<open>null\<close>; any other key becomes or stays an own
  property, also when a property of that name is inherited.
\<close>

definition set_property :: "object \<Rightarrow> string \<Rightarrow> property \<Rightarrow> object" where
  "set_property obj k v = (if k = ''__proto__'' then obj else AList.update k v obj)"

text \<open>
  The callback of the category breakdown: \<open>acc[entry.category] = (acc[entry.category] ||
  0) + parseFloat(entry.amount)\<close>.
\<close>

definition addCategory :: "object \<Rightarrow> entry \<Rightarrow> object" where
  "addCategory acc entry =
     set_property acc (category entry)
       (js_plus (or_zero_reading (get_property acc (category entry)))
          (parseFloat (amount entry)))"

record calculations =
  totalIncome :: number
  totalExpenses :: number
  balance :: number
  monthlyIncome :: number
  monthlyExpenses :: number
  monthlyEntries :: "entry list"
  categoryBreakdown :: object

definition calculations :: "parser \<Rightarrow> entry list \<Rightarrow> string \<Rightarrow> calculations" where
  "calculations parseISO es selectedMonth =
     (let totalIncome' = sumOfType ''income'' es;
          totalExpenses' = sumOfType ''expense'' es;
          balance' = js_sub totalIncome' totalExpenses';
          monthlyEntries' = filter (\<lambda>entry.
              isSameMonth (parseISO (date entry)) (parseISO (selectedMonth @ ''-01''))) es;
          monthlyIncome' = sumOfType ''income'' monthlyEntries';
          monthlyExpenses' = sumOfType ''expense'' monthlyEntries';
          categoryBreakdown' =
            foldl addCategory [] (filter (\<lambda>entry. type entry = ''expense'') monthlyEntries')
      in \<lparr>totalIncome = totalIncome',
          totalExpenses = totalExpenses',
          balance = balance',
          monthlyIncome = monthlyIncome',
          monthlyExpenses = monthlyExpenses',
          monthlyEntries = monthlyEntries',
          categoryBreakdown = categoryBreakdown'\<rparr>)"

subsection \<open>The keys and the values of the breakdown\<close>

text \<open>
  \<open>Object.keys\<close> and \<open>Object.values\<close>, which the pie chart reads, list the own
  properties whose key is an array index (a decimal numeral below \<open>2 ^ 32 - 1\<close> with
  no leading zero) first, in ascending order, and then the others in the order of their
  creation.
\<close>

definition is_array_index :: "string \<Rightarrow> bool" where
  "is_array_index k =
     (k \<noteq> [] \<and> list_all is_digit k \<and> (if hd k = CHR ''0'' then k = ''0'' else True)
      \<and> digits_val k < 2 ^ 32 - 1)"

definition own_properties :: "object \<Rightarrow> object" where
  "own_properties obj =
     sort_key (\<lambda>p. digits_val (fst p)) (filter (\<lambda>p. is_array_index (fst p)) obj)
     @ filter (\<lambda>p. \<not> is_array_index (fst p)) obj"

definition Object_keys :: "object \<Rightarrow> string list" where
  "Object_keys obj = map fst (own_properties obj)"

definition Object_values :: "object \<Rightarrow> property list" where
  "Object_values obj = map snd (own_properties obj)"

text \<open>
  The sum of the values of the breakdown, \<open>Object.values(categoryBreakdown).reduce((a,
  b) => a + b, 0)\<close>: \<open>+\<close> adds two Numbers and concatenates when one side is a String.
\<close>

fun property_toString :: "property \<Rightarrow> string" where
  "property_toString (Num x) = Number_toString x"
| "property_toString (Str s) = s"

fun add_values :: "property \<Rightarrow> property \<Rightarrow> property" where
  "add_values (Num x) (Num y) = Num (js_add x y)"
| "add_values v w = Str (property_toString v @ property_toString w)"

definition sumValues :: "object \<Rightarrow> property" where
  "sumValues bd = foldl add_values (Num (Finite 0)) (Object_values bd)"

subsection \<open>The trend series\<close>

record lineChart =
  labels :: "string list"
  incomeData :: "number list"
  expenseData :: "number list"

text \<open>
  The date of iteration \<open>i\<close> of the loop: \<open>date = new Date(); date.setMonth(date.getMonth()
  - i)\<close>, where \<open>today\<close> is the calendar date that \<open>new Date()\<close> returns.
\<close>

definition trendDate :: "ymd \<Rightarrow> nat \<Rightarrow> ymd" where
  "trendDate today i = setMonth today (int (month today) - int i)"

definition trendStep :: "parser \<Rightarrow> ymd \<Rightarrow> entry list \<Rightarrow> lineChart \<Rightarrow> nat \<Rightarrow> lineChart" where
  "trendStep parseISO today es chart i =
     (let d = trendDate today i;
          monthEntries = filter (\<lambda>entry. isSameMonth (parseISO (date entry)) (Some d)) es;
          income = sumOfType ''income'' monthEntries;
          expenses = sumOfType ''expense'' monthEntries
      in \<lparr>labels = labels chart @ [format_MMM_yyyy d],
          incomeData = incomeData chart @ [income],
          expenseData = expenseData chart @ [expenses]\<rparr>)"

text \<open>The loop \<open>for (let i = 5; i >= 0; i--)\<close> over the three arrays, empty at the start.\<close>

definition lineChartData :: "parser \<Rightarrow> ymd \<Rightarrow> entry list \<Rightarrow> lineChart" where
  "lineChartData parseISO today es =
     foldl (trendStep parseISO today es)
       \<lparr>labels = [], incomeData = [], expenseData = []\<rparr> [5, 4, 3, 2, 1, 0]"

text \<open>
  The behaviour of \<open>parseISO\<close> on the strings that the date input and the month input
  write, \<open>yyyy-MM-dd\<close> with a month from 01 to 12 and a day that the month has; every
  other string is an Invalid Date here. The concrete ledgers below use it.
\<close>

definition parseISO_date :: parser where
  "parseISO_date s =
     (if length s = 10 \<and> s ! 4 = CHR ''-'' \<and> s ! 7 = CHR ''-''
         \<and> list_all is_digit (take 4 s @ take 2 (drop 5 s) @ drop 8 s)
      then (let y = int (digits_val (take 4 s)); m = digits_val (take 2 (drop 5 s));
                d = digits_val (drop 8 s)
            in if 1 \<le> m \<and> m \<le> 12 \<and> 1 \<le> d \<and> d \<le> daysInMonth y (m - 1)
               then Some \<lparr>year = y, month = m - 1, day = d\<rparr> else None)
      else None)"

section \<open>Persisted state\<close>

text \<open>
  The values of JSON, and \<open>JSON.parse\<close> as a recursive descent over the text. A result
  is the value read and the text after it; \<open>None\<close> is a syntax error.
\<close>

datatype json =
    JNull
  | JBool bool
  | JNumber number
  | JString string
  | JArray "json list"
  | JObject "(string \<times> json) list"

datatype js_error = SyntaxError

definition is_json_space :: "char \<Rightarrow> bool" where
  "is_json_space c = (of_char c \<in> {9, 10, 13, 32 :: nat})"

definition skip_ws :: "string \<Rightarrow> string" where
  "skip_ws s = dropWhile is_json_space s"

definition hex_val :: "char \<Rightarrow> nat option" where
  "hex_val c =
     (let n = of_char c
      in if 48 \<le> n \<and> n \<le> 57 then Some (n - 48)
         else if 65 \<le> n \<and> n \<le> 70 then Some (n - 55)
         else if 97 \<le> n \<and> n \<le> 102 then Some (n - 87)
         else None)"

text \<open>The bytes of a code unit given by a \<open>\uXXXX\<close> escape, in UTF-8.\<close>

definition utf8 :: "nat \<Rightarrow> string" where
  "utf8 n =
     (if n < 128 then [char_of n]
      else if n < 2048 then [char_of (192 + n div 64), char_of (128 + n mod 64)]
      else [char_of (224 + n div 4096), char_of (128 + n div 64 mod 64), char_of (128 + n mod 64)])"

definition unescape :: "char \<Rightarrow> string option" where
  "unescape e =
     (if e = CHR 0x22 \<or> e = CHR 0x5C \<or> e = CHR ''/'' then Some [e]
      else if e = CHR ''b'' then Some [CHR 0x08]
      else if e = CHR ''f'' then Some [CHR 0x0C]
      else if e = CHR ''n'' then Some [CHR 0x0A]
      else if e = CHR ''r'' then Some [CHR 0x0D]
      else if e = CHR ''t'' then Some [CHR 0x09]
      else None)"

text \<open>A string, read from after its opening quote to its closing quote.\<close>

fun json_string :: "string \<Rightarrow> (string \<times> string) option" where
  "json_string [] = None"
| "json_string (c # r) =
     (if c = CHR 0x22 then Some ([], r)
      else if c = CHR 0x5C then
        (case r of
           [] \<Rightarrow> None
         | e # r' \<Rightarrow>
             if e = CHR ''u'' then
               (case r' of
                  a # b # c' # d # r'' \<Rightarrow>
                    (case (hex_val a, hex_val b, hex_val c', hex_val d) of
                       (Some h3, Some h2, Some h1, Some h0) \<Rightarrow>
                         map_option (\<lambda>(t, rest). (utf8 (4096 * h3 + 256 * h2 + 16 * h1 + h0) @ t, rest))
                           (json_string r'')
                     | _ \<Rightarrow> None)
                | _ \<Rightarrow> None)
             else
               (case unescape e of
                  None \<Rightarrow> None
                | Some t' \<Rightarrow> map_option (\<lambda>(t, rest). (t' @ t, rest)) (json_string r')))
      else if (of_char c :: nat) < 32 then None
      else map_option (\<lambda>(t, rest). (c # t, rest)) (json_string r))"

text \<open>
  A number: an optional minus, an integer part without a leading zero, an optional
  fraction and an optional exponent, each with at least one digit.
\<close>

definition json_number :: "string \<Rightarrow> (json \<times> string) option" where
  "json_number s =
     (let u = (case s of c # r \<Rightarrow> if c = CHR ''-'' then r else s | [] \<Rightarrow> s);
          ip = takeWhile is_digit u;
          r1 = dropWhile is_digit u
      in if ip = [] \<or> (1 < length ip \<and> hd ip = CHR ''0'') then None
         else
           let r2 = (case r1 of
                       c # r \<Rightarrow> if c = CHR ''.''
                                then (if takeWhile is_digit r = [] then None
                                      else Some (dropWhile is_digit r))
                                else Some r1
                     | [] \<Rightarrow> Some r1)
           in case r2 of
                None \<Rightarrow> None
              | Some r2' \<Rightarrow>
                  let r3 = (case r2' of
                              c # r \<Rightarrow>
                                if c = CHR ''e'' \<or> c = CHR ''E''
                                then (let d = snd (sign_rest r)
                                      in if takeWhile is_digit d = [] then None
                                         else Some (dropWhile is_digit d))
                                else Some r2'
                            | [] \<Rightarrow> Some r2')
                  in case r3 of
                       None \<Rightarrow> None
                     | Some rest \<Rightarrow>
                         Some (JNumber (parseFloat (take (length s - length rest) s)), rest))"

text \<open>
  Values, the elements of an array after its opening bracket and the members of an object
  after its opening brace. The first argument bounds the depth of the recursion; at
  least one character is read every second level, so twice the length of the text is
  enough.
\<close>

fun json_value :: "nat \<Rightarrow> string \<Rightarrow> (json \<times> string) option"
  and json_elements :: "nat \<Rightarrow> string \<Rightarrow> (json list \<times> string) option"
  and json_members :: "nat \<Rightarrow> string \<Rightarrow> ((string \<times> json) list \<times> string) option"
where
  "json_value 0 s = None"
| "json_value (Suc n) s =
     (case skip_ws s of
        [] \<Rightarrow> None
      | c # r \<Rightarrow>
          if c = CHR ''['' then
            (case skip_ws r of
               [] \<Rightarrow> None
             | c' # r' \<Rightarrow> if c' = CHR '']'' then Some (JArray [], r')
                          else map_option (\<lambda>(vs, rest). (JArray vs, rest)) (json_elements n r))
          else if c = CHR ''{'' then
            (case skip_ws r of
               [] \<Rightarrow> None
             | c' # r' \<Rightarrow> if c' = CHR ''}'' then Some (JObject [], r')
                          else map_option (\<lambda>(ms, rest). (JObject ms, rest)) (json_members n r))
          else if c = CHR 0x22 then map_option (\<lambda>(t, rest). (JString t, rest)) (json_string r)
          else if take 4 (c # r) = ''true'' then Some (JBool True, drop 4 (c # r))
          else if take 5 (c # r) = ''false'' then Some (JBool False, drop 5 (c # r))
          else if take 4 (c # r) = ''null'' then Some (JNull, drop 4 (c # r))
          else json_number (c # r))"
| "json_elements 0 s = None"
| "json_elements (Suc n) s =
     (case json_value n s of
        None \<Rightarrow> None
      | Some (v, r) \<Rightarrow>
          (case skip_ws r of
             [] \<Rightarrow> None
           | c # r' \<Rightarrow>
               if c = CHR '','' then map_option (\<lambda>(vs, rest). (v # vs, rest)) (json_elements n r')
               else if c = CHR '']'' then Some ([v], r')
               else None))"
| "json_members 0 s = None"
| "json_members (Suc n) s =
     (case skip_ws s of
        [] \<Rightarrow> None
      | q # r0 \<Rightarrow>
          if q \<noteq> CHR 0x22 then None
          else
            (case json_string r0 of
               None \<Rightarrow> None
             | Some (k, r1) \<Rightarrow>
                 (case skip_ws r1 of
                    [] \<Rightarrow> None
                  | c # r2 \<Rightarrow>
                      if c \<noteq> CHR '':'' then None
                      else
                        (case json_value n r2 of
                           None \<Rightarrow> None
                         | Some (v, r3) \<Rightarrow>
                             (case skip_ws r3 of
                                [] \<Rightarrow> None
                              | c' # r4 \<Rightarrow>
                                  if c' = CHR '','' then
                                    map_option (\<lambda>(ms, rest). ((k, v) # ms, rest)) (json_members n r4)
                                  else if c' = CHR ''}'' then Some ([(k, v)], r4)
                                  else None)))))"

definition JSON_parse :: "string \<Rightarrow> js_error + json" where
  "JSON_parse s =
     (case json_value (2 * length s + 2) s of
        None \<Rightarrow> Inl SyntaxError
      | Some (v, rest) \<Rightarrow> if skip_ws rest = [] then Inr v else Inl SyntaxError)"

text \<open>
  The effect that runs once when the component is mounted. \<open>saved\<close> is what
  \<open>localStorage.getItem(STORAGE_KEY)\<close> returns, \<open>null\<close> (\<open>None\<close>) when the key is
  absent. The ledger starts as the empty array and, when \<open>saved\<close> is truthy, becomes
  whatever \<open>JSON.parse\<close> returns; nothing catches what \<open>JSON.parse\<close> throws.
\<close>

definition load :: "string option \<Rightarrow> js_error + json" where
  "load saved =
     (if truthy saved
      then (case JSON_parse (the saved) of Inl err \<Rightarrow> Inl err | Inr v \<Rightarrow> Inr v)
      else Inr (JArray []))"

section \<open>Invariant of the ledgers built from the empty one\<close>

text \<open>
  Every id of the ledger was written from a clock reading in \<open>T\<close>, no id occurs twice,
  and the draft carries an id exactly while an entry is being edited, the non-empty id in
  \<open>editingId\<close>.
\<close>

definition ledger_inv :: "int set \<Rightarrow> state \<Rightarrow> bool" where
  "ledger_inv T st =
     (set (map id_e (entries st)) \<subseteq> (\<lambda>t. Some (toString_int t)) ` T
      \<and> distinct (map id_e (entries st))
      \<and> id_e (currentEntry st) = editingId st
      \<and> editingId st \<noteq> Some [])"

section \<open>Amounts in whole units\<close>

text \<open>
  A Number that is an integer, and the integer it is. \<open>wholeAmounts\<close>: the amounts of
  the entries are such numbers and their absolute values add up to at most \<open>2 ^ 53\<close>,
  so that every sum of some of them is computed without rounding.
\<close>

definition is_whole :: "number \<Rightarrow> bool" where
  "is_whole v = (case v of Finite q \<Rightarrow> of_int \<lfloor>q\<rfloor> = q | _ \<Rightarrow> False)"

definition number_units :: "number \<Rightarrow> int" where
  "number_units v = (case v of Finite q \<Rightarrow> \<lfloor>q\<rfloor> | _ \<Rightarrow> 0)"

definition units :: "entry \<Rightarrow> int" where
  "units e = number_units (parseFloat (amount e))"

definition wholeAmounts :: "entry list \<Rightarrow> bool" where
  "wholeAmounts es =
     (list_all (\<lambda>e. is_whole (parseFloat (amount e))) es
      \<and> sum_list (map (\<lambda>e. \<bar>units e\<bar>) es) \<le> 2 ^ 53)"

section \<open>Amounts with cents\<close>

text \<open>
  A Number that is finite, and its value. \<open>boundedAmounts K\<close>: the amounts of the
  entries are finite and the sum of their absolute values stays below \<open>2 ^ K\<close> by one
  unit in the last place for every entry, so that no partial sum, rounded, exceeds
  \<open>2 ^ K\<close>. Every addition then rounds by at most \<open>2 ^ (K - 54)\<close>.
\<close>

definition is_finite :: "number \<Rightarrow> bool" where
  "is_finite v = (case v of Finite q \<Rightarrow> True | _ \<Rightarrow> False)"

definition number_value :: "number \<Rightarrow> rat" where
  "number_value v = (case v of Finite q \<Rightarrow> q | _ \<Rightarrow> 0)"

definition exact_amount :: "entry \<Rightarrow> rat" where
  "exact_amount e = number_value (parseFloat (amount e))"

definition boundedAmounts :: "int \<Rightarrow> entry list \<Rightarrow> bool" where
  "boundedAmounts K es =
     (list_all (\<lambda>e. is_finite (parseFloat (amount e))) es \<and> - 1021 \<le> K \<and> K \<le> 1023
      \<and> sum_list (map (\<lambda>e. \<bar>exact_amount e\<bar>) es) + of_nat (length es) * pow2 (K - 53)
          \<le> pow2 K)"

text \<open>Two finite Numbers that differ by at most \<open>d\<close>.\<close>

definition close :: "rat \<Rightarrow> number \<Rightarrow> number \<Rightarrow> bool" where
  "close d a b = (case (a, b) of (Finite x, Finite y) \<Rightarrow> \<bar>x - y\<bar> \<le> d | _ \<Rightarrow> False)"

section \<open>Categories that name no inherited property\<close>

text \<open>
  The categories of the form are such names; a category that names a property of
  \<open>Object.prototype\<close> can only come from the persisted blob.
\<close>

definition inherited :: "string \<Rightarrow> bool" where
  "inherited k = (k = ''__proto__'' \<or> k \<in> set Object_prototype_methods)"

definition plainCategories :: "entry list \<Rightarrow> bool" where
  "plainCategories es = list_all (\<lambda>e. \<not> inherited (category e)) es"

text \<open>The Number that a property holds, \<open>NaN\<close> for a String.\<close>

fun number_of :: "property \<Rightarrow> number" where
  "number_of (Num x) = x"
| "number_of (Str s) = NaN"

section \<open>Concrete ledgers\<close>

definition food5 :: entry where
  "food5 = \<lparr>id_e = Some ''1'', type = ''expense'', amount = ''5.00'', category = ''Food'',
            description = [], date = ''2024-01-05''\<rparr>"

definition gift7 :: entry where
  "gift7 = \<lparr>id_e = Some ''2'', type = ''income'', amount = ''7.00'', category = ''Gift'',
            description = [], date = ''2024-01-06''\<rparr>"

definition feb_food :: entry where
  "feb_food = \<lparr>id_e = Some ''3'', type = ''expense'', amount = ''5.00'', category = ''Food'',
               description = [], date = ''2024-02-10''\<rparr>"

definition mar_gift :: entry where
  "mar_gift = \<lparr>id_e = Some ''4'', type = ''income'', amount = ''7.00'', category = ''Gift'',
               description = [], date = ''2024-03-06''\<rparr>"

text \<open>An entry of January 2024 with the given type, amount and category.\<close>

definition january :: "string \<Rightarrow> string \<Rightarrow> string \<Rightarrow> entry" where
  "january t a c =
     \<lparr>id_e = Some ''5'', type = t, amount = a, category = c, description = [],
      date = ''2024-01-15''\<rparr>"

text \<open>The ledger of the scenario: a salary and a meal in January, a meal in February.\<close>

definition scenario :: "entry list" where
  "scenario =
     [\<lparr>id_e = Some ''6'', type = ''income'', amount = ''1000.00'', category = ''Salary'',
       description = [], date = ''2024-01-05''\<rparr>,
      \<lparr>id_e = Some ''7'', type = ''expense'', amount = ''200.00'', category = ''Food'',
       description = [], date = ''2024-01-10''\<rparr>,
      \<lparr>id_e = Some ''8'', type = ''expense'', amount = ''50.00'', category = ''Food'',
       description = [], date = ''2024-02-01''\<rparr>]"

text \<open>
  A household ledger: a salary and three expenses in two categories in January, one of
  them a refund, and one expense in February.
\<close>

definition household :: "entry list" where
  "household =
     [\<lparr>id_e = Some ''11'', type = ''income'', amount = ''1000.00'', category = ''Salary'',
       description = [], date = ''2024-01-05''\<rparr>,
      \<lparr>id_e = Some ''12'', type = ''expense'', amount = ''200.00'', category = ''Food'',
       description = [], date = ''2024-01-10''\<rparr>,
      \<lparr>id_e = Some ''13'', type = ''expense'', amount = ''50.00'', category = ''Transport'',
       description = [], date = ''2024-01-12''\<rparr>,
      \<lparr>id_e = Some ''14'', type = ''expense'', amount = ''-30.00'', category = ''Food'',
       description = [], date = ''2024-01-20''\<rparr>,
      \<lparr>id_e = Some ''15'', type = ''expense'', amount = ''50.00'', category = ''Food'',
       description = [], date = ''2024-02-01''\<rparr>]"

text \<open>Small amounts with cents, all of January: three expenses and three incomes.\<close>

definition snacks :: "entry list" where
  "snacks =
     [january ''expense'' ''0.10'' ''Food'', january ''expense'' ''0.20'' ''Transport'',
      january ''expense'' ''0.40'' ''Food'', january ''income'' ''0.10'' ''Gift'',
      january ''income'' ''0.20'' ''Gift'', january ''income'' ''0.30'' ''Gift'']"

definition idle :: "entry list \<Rightarrow> state" where
  "idle es = \<lparr>entries = es, currentEntry = blankEntry ''2024-01-07'', editingId = None\<rparr>"

section \<open>Evaluating the arithmetic on numerals\<close>

lemma floorlog2_zero: "floorlog 2 0 = 0"
  by (simp add: floorlog_def)

lemma floorlog2_one: "floorlog 2 (Suc 0) = 1" "floorlog 2 1 = 1"
  by (simp_all add: compute_floorlog floorlog2_zero)

lemma floorlog2_numeral: "floorlog 2 (numeral k) = floorlog 2 (numeral k div 2) + 1"
  by (subst compute_floorlog) simp

lemma floor_rat_numeral:
  "\<lfloor>numeral a / numeral b :: rat\<rfloor> = numeral a div numeral b"
  "\<lfloor>- (numeral a / numeral b) :: rat\<rfloor> = - numeral a div numeral b"
  "\<lfloor>1 / numeral b :: rat\<rfloor> = 1 div numeral b"
  "\<lfloor>- (1 / numeral b) :: rat\<rfloor> = - 1 div numeral b"
  using floor_divide_of_int_eq [of "numeral a" "numeral b", where ?'a = rat]
    floor_divide_of_int_eq [of "- numeral a" "numeral b", where ?'a = rat]
    floor_divide_of_int_eq [of 1 "numeral b", where ?'a = rat]
    floor_divide_of_int_eq [of "- 1" "numeral b", where ?'a = rat]
  by simp_all

lemma ceiling_rat_numeral:
  "\<lceil>numeral a / numeral b :: rat\<rceil> = - (- numeral a div numeral b)"
  "\<lceil>1 / numeral b :: rat\<rceil> = - (- 1 div numeral b)"
  using floor_rat_numeral(2) [of a b] floor_rat_numeral(4) [of b]
  by (simp_all add: ceiling_def)

lemmas round64_eval = round64_def ilog2_def roundTiesToEven_def pow2_def Let_def
  floorlog2_zero floorlog2_one floorlog2_numeral floor_rat_numeral ceiling_rat_numeral

lemmas parseFloat_eval = parseFloat_def is_space_def is_digit_def digits_val_def digit_val_def
  pow10_def

lemma digit_char_eval:
  "digit_char 0 = CHR ''0''" "digit_char 1 = CHR ''1''" "digit_char (Suc 0) = CHR ''1''"
  "digit_char 2 = CHR ''2''" "digit_char 3 = CHR ''3''" "digit_char 4 = CHR ''4''"
  "digit_char 5 = CHR ''5''" "digit_char 6 = CHR ''6''" "digit_char 7 = CHR ''7''"
  "digit_char 8 = CHR ''8''" "digit_char 9 = CHR ''9''"
  by code_simp+

lemma decimal_numeral:
  "decimal (numeral k) =
     (if numeral k < (10::nat) then [digit_char (numeral k)]
      else decimal (numeral k div 10) @ [digit_char (numeral k mod 10)])"
  by (rule decimal.simps)

lemma decimal_small: "decimal 0 = ''0''" "decimal 1 = ''1''" "decimal (Suc 0) = ''1''"
  by (simp_all add: decimal.simps digit_char_eval)

lemmas decimal_eval = decimal_numeral decimal_small digit_char_eval toString_int_def

lemmas toFixed2_eval = toFixed2_def decimal_eval Let_def floor_rat_numeral

section \<open>Decimal notation\<close>

lemma digit_val_digit_char: "d < 10 \<Longrightarrow> digit_val (digit_char d) = d"
  by (simp add: digit_val_def digit_char_def)

lemma digits_val_snoc: "digits_val (ds @ [c]) = 10 * digits_val ds + digit_val c"
  by (simp add: digits_val_def)

lemma digits_val_decimal: "digits_val (decimal n) = n"
proof (induction n rule: decimal.induct)
  case (1 n)
  show ?case
  proof (cases "n < 10")
    case True
    then show ?thesis
      by (subst decimal.simps) (simp add: digits_val_def digit_val_digit_char)
  next
    case False
    with 1 have "digits_val (decimal (n div 10)) = n div 10" by simp
    with False show ?thesis
      by (subst decimal.simps) (simp add: digits_val_snoc digit_val_digit_char)
  qed
qed

lemma decimal_inj: "decimal a = decimal b \<Longrightarrow> a = b"
  by (metis digits_val_decimal)

lemma digit_char_not_minus: "d < 10 \<Longrightarrow> digit_char d \<noteq> CHR ''-''"
proof
  assume "d < 10" and "digit_char d = CHR ''-''"
  then have "(of_char (digit_char d) :: nat) = of_char CHR ''-''" by simp
  with \<open>d < 10\<close> show False
    by (simp add: digit_char_def)
qed

lemma decimal_nonempty: "decimal n \<noteq> []"
  by (subst decimal.simps) simp

lemma hd_decimal_not_minus: "hd (decimal n) \<noteq> CHR ''-''"
proof (induction n rule: decimal.induct)
  case (1 n)
  show ?case
  proof (cases "n < 10")
    case True
    then show ?thesis
      by (subst decimal.simps) (simp add: digit_char_not_minus)
  next
    case False
    with 1 have "hd (decimal (n div 10)) \<noteq> CHR ''-''" by simp
    with False show ?thesis
      by (subst decimal.simps) (simp add: decimal_nonempty)
  qed
qed

lemma toString_int_nonempty: "toString_int k \<noteq> []"
  by (simp add: toString_int_def decimal_nonempty)

lemma toString_int_inj: "toString_int a = toString_int b \<Longrightarrow> a = b"
proof -
  assume eq: "toString_int a = toString_int b"
  have neq: "CHR ''-'' # decimal m \<noteq> decimal n" for m n
    using hd_decimal_not_minus [of n] by (metis list.sel(1))
  show "a = b"
  proof (cases "a < 0")
    case True
    show ?thesis
    proof (cases "b < 0")
      case True
      with \<open>a < 0\<close> eq have "nat (- a) = nat (- b)"
        by (simp add: toString_int_def decimal_inj)
      with True \<open>a < 0\<close> show ?thesis by simp
    next
      case False
      with \<open>a < 0\<close> eq neq show ?thesis by (simp add: toString_int_def)
    qed
  next
    case False
    show ?thesis
    proof (cases "b < 0")
      case True
      with False eq neq [of "nat (- b)" "nat a"] show ?thesis by (simp add: toString_int_def)
    next
      case b: False
      with False eq have "nat a = nat b"
        by (simp add: toString_int_def decimal_inj)
      with False b show ?thesis by simp
    qed
  qed
qed

section \<open>Properties of the entry store\<close>

subsection \<open>Removing\<close>

text \<open>
  C10. Removing an id deletes every entry with that id, also when several entries have
  it: no entry of the result has the id, the other entries are kept as they are and in
  their order, and a ledger with no such entry is unchanged.
\<close>

theorem handleDelete_removes_all_matching:
  "(\<forall>e \<in> set (entries (handleDelete i st)). id_e e \<noteq> i)
   \<and> filter (\<lambda>e. id_e e \<noteq> i) (entries (handleDelete i st))
       = filter (\<lambda>e. id_e e \<noteq> i) (entries st)
   \<and> ((\<forall>e \<in> set (entries st). id_e e \<noteq> i) \<longrightarrow> handleDelete i st = st)"
proof -
  have "(\<forall>e \<in> set (entries st). id_e e \<noteq> i)
      \<longrightarrow> filter (\<lambda>e. id_e e \<noteq> i) (entries st) = entries st"
    by (simp add: filter_id_conv)
  then show ?thesis
    by (auto simp: handleDelete_def)
qed

theorem handleDelete_removes_all_matching_witness:
  "entries (handleDelete (Some ''1'') (idle [food5, gift7, food5])) = [gift7]
   \<and> handleDelete (Some ''3'') (idle [food5, gift7]) = idle [food5, gift7]"
  using handleDelete_removes_all_matching [of "Some ''1''" "idle [food5, gift7, food5]"]
    handleDelete_removes_all_matching [of "Some ''3''" "idle [food5, gift7]"]
  by (simp add: handleDelete_def idle_def food5_def gift7_def)

subsection \<open>Submitting\<close>

text \<open>
  C6. A submission whose draft has an empty amount or an empty category returns before
  anything is changed: the whole state, and with it the ledger, stays as it was.
\<close>

theorem handleSubmit_invalid_aborts:
  "amount (currentEntry st) = [] \<or> category (currentEntry st) = []
   \<Longrightarrow> handleSubmit now today st = st \<and> step st (Submit now today) = st"
  by (simp add: handleSubmit_def step_def categoryEffect_def)

theorem handleSubmit_invalid_aborts_witness:
  "amount (currentEntry (idle [food5])) = []
   \<and> handleSubmit 1000 ''2024-01-07'' (idle [food5]) = idle [food5]
   \<and> entries (step (idle [food5]) (Submit 1000 ''2024-01-07'')) = [food5]"
  using handleSubmit_invalid_aborts [of "idle [food5]" 1000 "''2024-01-07''"]
  by (simp add: idle_def blankEntry_def)


text \<open>
  C9. Submitting while an entry is being edited, that is while \<open>editingId\<close> is a
  non-empty id, puts the new entry in the place of every entry with that id and leaves
  the length of the ledger and every other entry as they were; when no entry has the id
  the ledger is unchanged. (An empty id is falsy: the program then appends, see the
  counterexample.)
\<close>

theorem handleSubmit_update_in_place:
  assumes "editingId st = Some i" and "i \<noteq> []"
    and "amount (currentEntry st) \<noteq> []" and "category (currentEntry st) \<noteq> []"
  shows "length (entries (handleSubmit now today st)) = length (entries st)
    \<and> (\<forall>k < length (entries st).
          entries (handleSubmit now today st) ! k
            = (if id_e (entries st ! k) = Some i then newEntry now st else entries st ! k))
    \<and> ((\<forall>e \<in> set (entries st). id_e e \<noteq> Some i)
          \<longrightarrow> entries (handleSubmit now today st) = entries st)"
proof -
  have t: "truthy (editingId st)"
    using assms by (simp add: truthy_def)
  have eq: "entries (handleSubmit now today st)
      = map (\<lambda>e. if id_e e = Some i then newEntry now st else e) (entries st)"
    using assms t by (simp add: handleSubmit_def Let_def)
  have "(\<forall>e \<in> set (entries st). id_e e \<noteq> Some i)
      \<longrightarrow> map (\<lambda>e. if id_e e = Some i then newEntry now st else e) (entries st) = entries st"
    by (simp add: map_idI)
  with eq show ?thesis by simp
qed

theorem handleSubmit_update_in_place_witness:
  "editingId (handleEdit food5 (idle [gift7, food5, gift7])) = Some ''1''
   \<and> entries (handleSubmit 1000 ''2024-01-07''
        ((handleEdit food5 (idle [gift7, food5, gift7]))
           \<lparr>currentEntry := food5\<lparr>amount := ''7.126''\<rparr>\<rparr>))
     = [gift7, food5\<lparr>amount := ''7.13''\<rparr>, gift7]
   \<and> entries (handleSubmit 1000 ''2024-01-07'' (handleEdit food5 (idle [gift7, gift7])))
     = [gift7, gift7]"
proof -
  have "parseFloat ''7.126'' = Finite (8023162736160539 / 1125899906842624)"
    by (simp add: parseFloat_eval round64_eval)
  moreover have "toFixed2 (Finite (8023162736160539 / 1125899906842624)) = ''7.13''"
    by (simp add: toFixed2_eval)
  ultimately have a: "toFixed2 (parseFloat ''7.126'') = ''7.13''" by simp
  show ?thesis
    using handleSubmit_update_in_place [of
        "(handleEdit food5 (idle [gift7, food5, gift7]))\<lparr>currentEntry := food5\<lparr>amount := ''7.126''\<rparr>\<rparr>"
        "''1''" 1000 "''2024-01-07''"]
    by (simp add: handleSubmit_def handleEdit_def idle_def newEntry_def truthy_def food5_def
        gift7_def a)
qed

theorem update_with_empty_id_counterexample:
  "length (entries (handleSubmit 1000 ''2024-01-07''
       (handleEdit (food5\<lparr>id_e := Some []\<rparr>) (idle [food5\<lparr>id_e := Some []\<rparr>]))))
   \<noteq> length (entries (handleEdit (food5\<lparr>id_e := Some []\<rparr>) (idle [food5\<lparr>id_e := Some []\<rparr>])))"
  by (simp add: handleSubmit_def handleEdit_def idle_def truthy_def food5_def)


subsection \<open>Adding and then removing\<close>

text \<open>
  C8. Adding an entry and then removing the id it was given restores the ledger, and so
  every aggregate, provided no entry of the ledger had that id already. (Removing deletes
  every entry with the id, so an older entry with the same id goes too, see the
  counterexample.)
\<close>

theorem add_then_remove:
  assumes "\<not> truthy (editingId st)"
    and "amount (currentEntry st) \<noteq> []" and "category (currentEntry st) \<noteq> []"
    and "\<forall>e \<in> set (entries st). id_e e \<noteq> id_e (newEntry now st)"
  shows "entries (handleSubmit now today st) = entries st @ [newEntry now st]
    \<and> entries (handleDelete (id_e (newEntry now st)) (handleSubmit now today st)) = entries st
    \<and> calculations parseISO
         (entries (handleDelete (id_e (newEntry now st)) (handleSubmit now today st))) m
       = calculations parseISO (entries st) m"
proof -
  have eq: "entries (handleSubmit now today st) = entries st @ [newEntry now st]"
    using assms by (simp add: handleSubmit_def Let_def)
  have "filter (\<lambda>e. id_e e \<noteq> id_e (newEntry now st)) (entries st) = entries st"
    using assms(4) by (simp add: filter_id_conv)
  with eq show ?thesis by (simp add: handleDelete_def)
qed

theorem add_then_remove_witness:
  "id_e (newEntry 1000 ((idle [food5])\<lparr>currentEntry := (blankEntry ''2024-01-07'')\<lparr>amount := ''7''\<rparr>\<rparr>))
     = Some ''1000''
   \<and> entries (handleDelete (Some ''1000'') (handleSubmit 1000 ''2024-01-07''
        ((idle [food5])\<lparr>currentEntry := (blankEntry ''2024-01-07'')\<lparr>amount := ''7''\<rparr>\<rparr>)))
     = [food5]"
proof -
  have a: "toString_int 1000 = ''1000''" by (simp add: decimal_eval)
  show ?thesis
    using add_then_remove [of
        "(idle [food5])\<lparr>currentEntry := (blankEntry ''2024-01-07'')\<lparr>amount := ''7''\<rparr>\<rparr>"
        1000 "''2024-01-07''"]
    by (simp add: newEntry_def idle_def blankEntry_def truthy_def food5_def a)
qed

theorem add_then_remove_counterexample:
  "entries (handleDelete
      (id_e (newEntry 1000 (run (initState ''2024-01-07'')
         [SetAmount ''5'', Submit 1000 ''2024-01-07'', SetAmount ''7''])))
      (handleSubmit 1000 ''2024-01-07'' (run (initState ''2024-01-07'')
         [SetAmount ''5'', Submit 1000 ''2024-01-07'', SetAmount ''7''])))
   \<noteq> entries (run (initState ''2024-01-07'')
         [SetAmount ''5'', Submit 1000 ''2024-01-07'', SetAmount ''7''])"
  by (simp add: run_def step_def handleSubmit_def handleDelete_def newEntry_def initState_def
      blankEntry_def categoryEffect_def truthy_def)


subsection \<open>Unique ids\<close>

lemma ledger_inv_mono: "ledger_inv T st \<Longrightarrow> T \<subseteq> T' \<Longrightarrow> ledger_inv T' st"
  unfolding ledger_inv_def by blast

lemma categoryEffect_inv: "ledger_inv T (categoryEffect before st) = ledger_inv T st"
  by (simp add: categoryEffect_def ledger_inv_def)

lemma map_id_replace:
  "id_e entry = i \<Longrightarrow> map id_e (map (\<lambda>e. if id_e e = i then entry else e) es) = map id_e es"
  by (induction es) auto

lemma set_field_inv:
  "ledger_inv T st \<Longrightarrow> id_e c = id_e (currentEntry st) \<Longrightarrow> ledger_inv T (st\<lparr>currentEntry := c\<rparr>)"
  by (simp add: ledger_inv_def)

lemma handleEdit_inv:
  assumes "ledger_inv T st" and "k < length (entries st)"
  shows "ledger_inv T (handleEdit (entries st ! k) st)"
proof -
  from assms have "id_e (entries st ! k) \<in> (\<lambda>t. Some (toString_int t)) ` T"
    unfolding ledger_inv_def by (metis (no_types, lifting) length_map nth_map nth_mem subsetD)
  then obtain t where "id_e (entries st ! k) = Some (toString_int t)" by blast
  with assms(1) show ?thesis
    by (simp add: handleEdit_def ledger_inv_def toString_int_nonempty)
qed

lemma handleDelete_inv: "ledger_inv T st \<Longrightarrow> ledger_inv T (handleDelete i st)"
  by (auto simp: handleDelete_def ledger_inv_def distinct_map_filter)

lemma cancelEdit_inv: "ledger_inv T st \<Longrightarrow> ledger_inv T (cancelEdit today st)"
  by (simp add: cancelEdit_def ledger_inv_def blankEntry_def)

lemma handleSubmit_inv:
  assumes inv: "ledger_inv T st" and fresh: "now \<notin> T"
  shows "ledger_inv (insert now T) (handleSubmit now today st)"
proof (cases "amount (currentEntry st) = [] \<or> category (currentEntry st) = []")
  case True
  then have "handleSubmit now today st = st" by (simp add: handleSubmit_def)
  with inv show ?thesis by (auto intro: ledger_inv_mono)
next
  case valid: False
  show ?thesis
  proof (cases "editingId st")
    case None
    with inv have noid: "id_e (currentEntry st) = None" by (simp add: ledger_inv_def)
    from None have nt: "\<not> truthy (editingId st)" by (simp add: truthy_def)
    have idn: "id_e (newEntry now st) = Some (toString_int now)"
      using noid nt by (simp add: newEntry_def)
    have st': "handleSubmit now today st
        = \<lparr>entries = entries st @ [newEntry now st], currentEntry = blankEntry today,
           editingId = None\<rparr>"
      using valid nt None by (simp add: handleSubmit_def Let_def)
    have "Some (toString_int now) \<notin> set (map id_e (entries st))"
    proof
      assume "Some (toString_int now) \<in> set (map id_e (entries st))"
      with inv obtain t where "t \<in> T" and "toString_int now = toString_int t"
        unfolding ledger_inv_def by blast
      with fresh show False by (auto dest: toString_int_inj)
    qed
    with inv idn show ?thesis
      unfolding st' by (auto simp: ledger_inv_def blankEntry_def)
  next
    case (Some i)
    with inv have i: "i \<noteq> []" "id_e (currentEntry st) = Some i" by (auto simp: ledger_inv_def)
    from Some i have t: "truthy (editingId st)" by (simp add: truthy_def)
    have idn: "id_e (newEntry now st) = Some i"
      using i by (simp add: newEntry_def)
    have st': "handleSubmit now today st
        = \<lparr>entries = map (\<lambda>e. if id_e e = Some i then newEntry now st else e) (entries st),
           currentEntry = blankEntry today, editingId = None\<rparr>"
      using valid t Some by (simp add: handleSubmit_def Let_def)
    have "map id_e (map (\<lambda>e. if id_e e = Some i then newEntry now st else e) (entries st))
        = map id_e (entries st)"
      using idn by (rule map_id_replace)
    with inv show ?thesis
      unfolding st' ledger_inv_def by (auto simp: blankEntry_def simp del: map_map)
  qed
qed

lemma step_inv:
  assumes "ledger_inv T st" and "set (submit_times [ev]) \<inter> T = {}"
  shows "ledger_inv (T \<union> set (submit_times [ev])) (step st ev)"
proof (cases ev)
  case (Submit now today)
  with assms show ?thesis
    by (simp add: step_def categoryEffect_inv handleSubmit_inv)
next
  case (Edit k)
  with assms show ?thesis
    by (simp add: step_def categoryEffect_inv handleEdit_inv listed_def)
next
  case (Delete k)
  with assms show ?thesis
    by (simp add: step_def categoryEffect_inv handleDelete_inv)
next
  case (CancelEdit today)
  with assms show ?thesis
    by (simp add: step_def categoryEffect_inv cancelEdit_inv)
qed (use assms in \<open>simp_all add: step_def categoryEffect_inv set_field_inv\<close>)

lemma run_inv:
  "ledger_inv T st \<Longrightarrow> distinct (submit_times evs) \<Longrightarrow> set (submit_times evs) \<inter> T = {}
   \<Longrightarrow> ledger_inv (T \<union> set (submit_times evs)) (run st evs)"
proof (induction evs arbitrary: T st)
  case Nil
  then show ?case by (simp add: run_def)
next
  case (Cons ev evs)
  have split: "submit_times (ev # evs) = submit_times [ev] @ submit_times evs"
    by (cases ev) simp_all
  from Cons.prems have a: "set (submit_times [ev]) \<inter> T = {}"
    and d: "distinct (submit_times evs)"
    and b: "set (submit_times evs) \<inter> (T \<union> set (submit_times [ev])) = {}"
    unfolding split by auto
  from Cons.prems(1) a have "ledger_inv (T \<union> set (submit_times [ev])) (step st ev)"
    by (rule step_inv)
  from Cons.IH [OF this d b] show ?case
    unfolding split by (simp add: run_def Un_assoc)
qed

lemma initState_inv: "ledger_inv {} (initState today)"
  by (simp add: ledger_inv_def initState_def blankEntry_def)


text \<open>
  C7. In every state reached from the empty ledger by any sequence of events, no two
  entries share an id, provided the clock readings of the submissions differ from one
  another. (Two submissions at the same clock reading give two entries the same id, see
  the counterexample.)
\<close>

theorem ids_unique_when_clock_readings_differ:
  "distinct (submit_times evs) \<Longrightarrow> distinct (map id_e (entries (run (initState today) evs)))"
  using run_inv [OF initState_inv, of evs today] by (simp add: ledger_inv_def)

theorem ids_unique_when_clock_readings_differ_witness:
  "distinct (submit_times [SetAmount ''5'', Submit 1000 ''2024-01-07'', SetAmount ''7'', Submit 1001 ''2024-01-07''])
   \<and> map id_e (entries (run (initState ''2024-01-07'')
        [SetAmount ''5'', Submit 1000 ''2024-01-07'', SetAmount ''7'', Submit 1001 ''2024-01-07'']))
     = [Some ''1000'', Some ''1001'']"
proof -
  have a: "toString_int 1000 = ''1000''" and b: "toString_int 1001 = ''1001''"
    by (simp_all add: decimal_eval)
  show ?thesis
    using ids_unique_when_clock_readings_differ [of
      "[SetAmount ''5'', Submit 1000 ''2024-01-07'', SetAmount ''7'', Submit 1001 ''2024-01-07'']"
      "''2024-01-07''"]
    by (simp add: run_def step_def handleSubmit_def newEntry_def initState_def blankEntry_def
        categoryEffect_def truthy_def a b)
qed

theorem ids_collide_counterexample:
  "\<not> distinct (map id_e (entries (run (initState ''2024-01-07'')
        [SetAmount ''5'', Submit 1000 ''2024-01-07'', SetAmount ''7'', Submit 1000 ''2024-01-07''])))"
  by (simp add: run_def step_def handleSubmit_def newEntry_def initState_def blankEntry_def categoryEffect_def truthy_def)



section \<open>Properties of the trend series\<close>

text \<open>
  The three arrays have six positions each, for the iterations \<open>i = 5, ..., 0\<close>. When
  the day of the month is at most 28, iteration \<open>i\<close> is the month \<open>i\<close> months before the
  current one, so the six positions are six consecutive months that end at the current
  month.
\<close>

lemma trend_lengths:
  "length (labels (lineChartData parseISO today es)) = 6
   \<and> length (incomeData (lineChartData parseISO today es)) = 6
   \<and> length (expenseData (lineChartData parseISO today es)) = 6"
  by (simp add: lineChartData_def trendStep_def Let_def)

lemma trend_rows:
  "lineChartData parseISO today es =
     \<lparr>labels = map (\<lambda>i. format_MMM_yyyy (trendDate today i)) [5, 4, 3, 2, 1, 0],
      incomeData = map (\<lambda>i. sumOfType ''income''
          (filter (\<lambda>entry. isSameMonth (parseISO (date entry)) (Some (trendDate today i))) es))
          [5, 4, 3, 2, 1, 0],
      expenseData = map (\<lambda>i. sumOfType ''expense''
          (filter (\<lambda>entry. isSameMonth (parseISO (date entry)) (Some (trendDate today i))) es))
          [5, 4, 3, 2, 1, 0]\<rparr>"
  by (simp add: lineChartData_def trendStep_def Let_def)

lemma trendDate_month_index:
  assumes "day today \<le> 28" and "month today < 12"
  shows "year (trendDate today i) * 12 + int (month (trendDate today i))
           = year today * 12 + int (month today) - int i
         \<and> month (trendDate today i) < 12 \<and> day (trendDate today i) = day today"
proof -
  have "day today \<le> daysInMonth y m" for y m
    using assms(1) by (simp add: daysInMonth_def)
  then show ?thesis
    by (simp add: trendDate_def setMonth_def Let_def nat_less_iff) 
qed

lemma trend_dates_31:
  "trendDate \<lparr>year = 2024, month = 2, day = 31\<rparr> 5 = \<lparr>year = 2023, month = 9, day = 31\<rparr>"
  "trendDate \<lparr>year = 2024, month = 2, day = 31\<rparr> 4 = \<lparr>year = 2023, month = 11, day = 1\<rparr>"
  "trendDate \<lparr>year = 2024, month = 2, day = 31\<rparr> 3 = \<lparr>year = 2023, month = 11, day = 31\<rparr>"
  "trendDate \<lparr>year = 2024, month = 2, day = 31\<rparr> 2 = \<lparr>year = 2024, month = 0, day = 31\<rparr>"
  "trendDate \<lparr>year = 2024, month = 2, day = 31\<rparr> 1 = \<lparr>year = 2024, month = 2, day = 2\<rparr>"
  "trendDate \<lparr>year = 2024, month = 2, day = 31\<rparr> (Suc 0) = \<lparr>year = 2024, month = 2, day = 2\<rparr>"
  "trendDate \<lparr>year = 2024, month = 2, day = 31\<rparr> 0 = \<lparr>year = 2024, month = 2, day = 31\<rparr>"
  by (simp_all add: trendDate_def setMonth_def daysInMonth_def leapYear_def Let_def)

text \<open>
  C2. The positions are not always six consecutive months. On 31 March 2024 the loop asks
  for 31 November and for 31 February, which \<open>setMonth\<close> turns into 1 December and
  2 March: the series shows October, December, December, January, March, March, with no
  position for November or February.
\<close>

theorem trend_on_the_31st:
  "map (\<lambda>i. (year (trendDate \<lparr>year = 2024, month = 2, day = 31\<rparr> i),
              month (trendDate \<lparr>year = 2024, month = 2, day = 31\<rparr> i))) [5, 4, 3, 2, 1, 0]
     = [(2023, 9), (2023, 11), (2023, 11), (2024, 0), (2024, 2), (2024, 2)]
   \<and> labels (lineChartData parseISO \<lparr>year = 2024, month = 2, day = 31\<rparr> es)
     = [''Oct 2023'', ''Dec 2023'', ''Dec 2023'', ''Jan 2024'', ''Mar 2024'', ''Mar 2024'']"
  by (simp add: trend_rows trend_dates_31 format_MMM_yyyy_def monthNames_def decimal_eval Let_def)

text \<open>
  On that day an expense of February is in no position of the series and an income of
  March is in two.
\<close>

lemma ledger_on_the_31st:
  "expenseData (lineChartData parseISO_date \<lparr>year = 2024, month = 2, day = 31\<rparr> [feb_food, mar_gift])
     = [Finite 0, Finite 0, Finite 0, Finite 0, Finite 0, Finite 0]
   \<and> incomeData (lineChartData parseISO_date \<lparr>year = 2024, month = 2, day = 31\<rparr> [feb_food, mar_gift])
     = [Finite 0, Finite 0, Finite 0, Finite 0, Finite 7, Finite 7]"
proof -
  have p: "parseISO_date ''2024-02-10'' = Some \<lparr>year = 2024, month = 1, day = 10\<rparr>"
    "parseISO_date ''2024-03-06'' = Some \<lparr>year = 2024, month = 2, day = 6\<rparr>"
    by (simp_all add: parseISO_date_def is_digit_def digits_val_def digit_val_def daysInMonth_def leapYear_def)
  have a: "parseFloat ''7.00'' = Finite 7"
    by (simp add: parseFloat_eval round64_eval)
  have s: "round64 7 = Finite 7"
    by (simp add: round64_eval)
  show ?thesis
    by (simp add: trend_rows trend_dates_31 isSameMonth_def sumOfType_def feb_food_def mar_gift_def p a s)
qed

section \<open>Properties of the startup load\<close>

text \<open>
  C5. An absent key and an empty string give the empty ledger. Any other text is handed
  to \<open>JSON.parse\<close>, and the load is whatever \<open>JSON.parse\<close> does with it: a syntax
  error is thrown on, and a value of any shape becomes the ledger unchecked.
\<close>

theorem load_absent_or_empty:
  "load None = Inr (JArray []) \<and> load (Some []) = Inr (JArray [])
   \<and> load (Some (c # s)) = JSON_parse (c # s)"
  by (simp add: load_def truthy_def split: sum.splits)

theorem load_absent_or_empty_witness:
  "load (Some ''[]'') = Inr (JArray [])"
  using load_absent_or_empty [of "CHR ''[''" "'']''"]
  by (simp add: JSON_parse_def skip_ws_def is_json_space_def eval_nat_numeral)

theorem load_malformed_counterexample:
  "load (Some ''{'') = Inl SyntaxError \<and> load (Some ''null'') = Inr JNull"
  by (simp add: load_def truthy_def JSON_parse_def skip_ws_def is_json_space_def
      eval_nat_numeral)


section \<open>Properties of the aggregation\<close>

subsection \<open>Powers of two and rounding\<close>

lemma pow2_pos: "0 < pow2 k"
  by (simp add: pow2_def)

lemma pow2_of_nat: "pow2 (int n) = 2 ^ n"
  by (simp add: pow2_def)

lemma pow2_neg_nat: "pow2 (- int n) = 1 / 2 ^ n"
  by (auto simp: pow2_def)

lemma pow2_powi: "pow2 k = 2 powi k"
  by (simp add: pow2_def power_int_def power_one_over [symmetric] inverse_eq_divide)

lemma pow2_add: "pow2 (a + b) = pow2 a * pow2 b"
  by (simp add: pow2_powi power_int_add)

lemma pow2_divide: "pow2 a / pow2 b = pow2 (a - b)"
  by (simp add: pow2_powi power_int_diff)

lemma pow2_mono: "a \<le> b \<Longrightarrow> pow2 a \<le> pow2 b"
  by (simp add: pow2_powi power_int_increasing)

lemma pow2_strict_mono: "a < b \<Longrightarrow> pow2 a < pow2 b"
  by (simp add: pow2_powi power_int_strict_increasing)

lemma pow2_le_imp_le: "pow2 a \<le> pow2 b \<Longrightarrow> a \<le> b"
  using pow2_strict_mono [of b a] by (cases "a \<le> b") simp_all

lemma pow2_half: "pow2 q / 2 = pow2 (q - 1)"
  using pow2_divide [of q 1] by (simp add: pow2_def)

lemma ilog2_bounds:
  assumes "0 < x"
  shows "pow2 (ilog2 x) \<le> x \<and> x < pow2 (ilog2 x + 1)"
proof (cases "1 \<le> x")
  case True
  define f where "f = nat \<lfloor>x\<rfloor>"
  define l where "l = floorlog 2 f"
  from True have f1: "1 \<le> f"
    by (simp add: f_def le_nat_iff floor_le_iff le_floor_iff)
  then have fb: "2 ^ (l - 1) \<le> f" "f < 2 ^ l"
    using floorlog_bounds [of f 2] by (simp_all add: l_def)
  have "floorlog 2 f \<noteq> 0"
    using f1 by (simp add: floorlog_eq_zero_iff)
  then have l1: "1 \<le> l"
    by (simp add: l_def)
  have e: "ilog2 x = int (l - 1)"
    using True l1 by (simp add: ilog2_def f_def l_def)
  have fx: "of_nat f \<le> x" "x < of_nat f + 1"
    using True floor_correct [of x] by (simp_all add: f_def of_nat_nat)
  have "(of_nat (2 ^ (l - 1)) :: rat) \<le> of_nat f"
    using fb(1) by (simp only: of_nat_le_iff)
  then have "(2::rat) ^ (l - 1) \<le> of_nat f"
    by simp
  then have "(2::rat) ^ (l - 1) \<le> x"
    using fx(1) by (rule order_trans)
  then have lo: "pow2 (int (l - 1)) \<le> x"
    by (simp only: pow2_of_nat)
  have "f + 1 \<le> 2 ^ l" using fb(2) by arith
  then have "(of_nat (f + 1) :: rat) \<le> of_nat (2 ^ l)"
    by (simp only: of_nat_le_iff)
  then have "(of_nat f :: rat) + 1 \<le> 2 ^ l" by simp
  with fx(2) have "x < 2 ^ l" by (rule less_le_trans)
  then have h: "x < pow2 (int l)" by (simp only: pow2_of_nat)
  have eq: "int (l - 1) + 1 = int l" using l1 by simp
  have hi: "x < pow2 (int (l - 1) + 1)"
    unfolding eq by (rule h)
  from lo hi show ?thesis by (simp only: e)
next
  case False
  then have x1: "x < 1" by simp
  define c where "c = \<lceil>1 / x\<rceil>"
  define k where "k = floorlog 2 (nat (c - 1))"
  have inv1: "1 < 1 / x"
    using assms x1 by (simp add: field_simps)
  then have c2: "2 \<le> c"
    unfolding c_def by (simp add: le_ceiling_iff)
  have cb: "1 / x \<le> of_int c" "of_int c - 1 < 1 / x"
    unfolding c_def using ceiling_correct [of "1 / x"] by simp_all
  from c2 have n1: "0 < nat (c - 1)" by simp
  then have nb: "2 ^ (k - 1) \<le> nat (c - 1)" "nat (c - 1) < 2 ^ k"
    using floorlog_bounds [of "nat (c - 1)" 2] by (simp_all add: k_def)
  have "floorlog 2 (nat (c - 1)) \<noteq> 0"
    using n1 by (simp add: floorlog_eq_zero_iff)
  then have k1: "1 \<le> k"
    by (simp add: k_def)
  have e: "ilog2 x = - int k"
    using False by (simp add: ilog2_def c_def k_def)
  have cn: "(of_nat (nat (c - 1)) :: rat) = of_int c - 1"
    using c2 by (simp add: of_nat_nat)
  have "nat (c - 1) + 1 \<le> 2 ^ k" using nb(2) by arith
  then have "(of_nat (nat (c - 1) + 1) :: rat) \<le> of_nat (2 ^ k)"
    by (simp only: of_nat_le_iff)
  then have "(of_nat (nat (c - 1)) :: rat) + 1 \<le> 2 ^ k"
    by simp
  then have "(of_int c - 1 :: rat) + 1 \<le> 2 ^ k"
    by (simp only: cn)
  then have "(of_int c :: rat) \<le> 2 ^ k"
    by simp
  with cb(1) have "1 / x \<le> 2 ^ k" by (rule order_trans)
  then have "1 / 2 ^ k \<le> x"
    using assms by (simp add: field_simps)
  then have lo: "pow2 (- int k) \<le> x"
    by (simp only: pow2_neg_nat)
  have "(of_nat (2 ^ (k - 1)) :: rat) \<le> of_nat (nat (c - 1))"
    using nb(1) by (simp only: of_nat_le_iff)
  then have "(of_nat (2 ^ (k - 1)) :: rat) \<le> of_int c - 1"
    by (simp only: cn)
  then have "(2::rat) ^ (k - 1) \<le> of_int c - 1"
    by simp
  then have "2 ^ (k - 1) < 1 / x"
    using cb(2) by (rule le_less_trans)
  then have "x < 1 / 2 ^ (k - 1)"
    using assms by (simp add: field_simps)
  then have h: "x < pow2 (- int (k - 1))"
    by (simp only: pow2_neg_nat)
  have eq: "- int k + 1 = - int (k - 1)" using k1 by simp
  have hi: "x < pow2 (- int k + 1)"
    unfolding eq by (rule h)
  from lo hi show ?thesis
    by (simp only: e)
qed

lemma round_err: "\<bar>of_int (roundTiesToEven m) - m\<bar> \<le> 1 / 2"
proof -
  have "of_int \<lfloor>m\<rfloor> \<le> m" "m < of_int \<lfloor>m\<rfloor> + 1"
    using floor_correct [of m] by simp_all
  then show ?thesis
    by (auto simp: roundTiesToEven_def Let_def abs_le_iff)
qed

lemma round_le: "m \<le> of_int N \<Longrightarrow> roundTiesToEven m \<le> N"
proof -
  assume a: "m \<le> of_int N"
  then have f: "\<lfloor>m\<rfloor> \<le> N" by (simp add: floor_le_iff)
  show ?thesis
  proof (cases "\<lfloor>m\<rfloor> = N")
    case True
    with a have "m - of_int \<lfloor>m\<rfloor> \<le> 0" by simp
    then show ?thesis
      using True by (simp add: roundTiesToEven_def Let_def)
  next
    case False
    with f have "\<lfloor>m\<rfloor> + 1 \<le> N" by simp
    then show ?thesis
      by (auto simp: roundTiesToEven_def Let_def)
  qed
qed

lemma round_nonneg: "0 \<le> m \<Longrightarrow> 0 \<le> roundTiesToEven m"
proof -
  assume "0 \<le> m"
  then have "0 \<le> \<lfloor>m\<rfloor>" by simp
  then show ?thesis
    by (auto simp: roundTiesToEven_def Let_def)
qed

lemma roundTiesToEven_of_int: "roundTiesToEven (of_int k) = k"
  by (simp add: roundTiesToEven_def)

lemma ilog2_of_nat: "0 < n \<Longrightarrow> ilog2 (of_nat n) = int (floorlog 2 n) - 1"
  by (simp add: ilog2_def)

lemma round64_of_nat:
  assumes "n \<le> 2 ^ 53"
  shows "round64 (of_nat n) = Finite (of_nat n)"
proof (cases "n = 0")
  case True
  then show ?thesis by (simp add: round64_def)
next
  case False
  then have pos: "0 < n" by simp
  define e where "e = int (floorlog 2 n) - 1"
  have "floorlog 2 n \<noteq> 0"
    using pos by (simp add: floorlog_eq_zero_iff)
  then have e0: "0 \<le> e"
    by (simp add: e_def)
  show ?thesis
  proof (cases "n = 2 ^ 53")
    case True
    then show ?thesis
      by (simp add: round64_eval)
  next
    case False
    with assms have lt: "n < 2 ^ 53" by simp
    then have "floorlog 2 n \<le> 53"
      by (simp add: floorlog_le_iff)
    then have e52: "e \<le> 52" by (simp add: e_def)
    define k where "k = nat (52 - e)"
    have q: "max (e - 52) (- 1074) = - int k"
      using e0 e52 by (simp add: k_def)
    have "(of_nat n :: rat) / pow2 (- int k) = of_int (int n * 2 ^ k)"
      by (simp add: pow2_def)
    then have r: "roundTiesToEven (of_nat n / pow2 (- int k)) = int n * 2 ^ k"
      by (simp only: roundTiesToEven_of_int)
    have unscale: "of_int (int n * 2 ^ k) * pow2 (- int k) = (of_nat n :: rat)"
      by (simp add: pow2_def)
    show ?thesis
      using pos unfolding round64_def
      by (simp add: ilog2_of_nat e_def [symmetric] q r unscale Let_def del: of_int_mult)
  qed
qed

lemma round64_bound:
  assumes x0: "0 \<le> x" and xK: "x \<le> pow2 K" and K1: "- 1021 \<le> K" and K2: "K \<le> 1023"
  shows "\<exists>y. round64 x = Finite y \<and> 0 \<le> y \<and> y \<le> pow2 K \<and> \<bar>y - x\<bar> \<le> pow2 (K - 54)"
proof (cases "x = 0")
  case True
  have "0 \<le> pow2 K" "0 \<le> pow2 (K - 54)"
    using pow2_pos [of K] pow2_pos [of "K - 54"] by simp_all
  with True show ?thesis
    by (simp add: round64_def)
next
  case False
  with x0 have pos: "0 < x" by simp
  define e where "e = ilog2 x"
  define q where "q = max (e - 52) (- 1074)"
  define m where "m = x / pow2 q"
  define n where "n = roundTiesToEven m"
  have lo: "pow2 e \<le> x" and hi: "x < pow2 (e + 1)"
    using ilog2_bounds [OF pos] by (simp_all add: e_def)
  from lo xK have "pow2 e \<le> pow2 K" by (rule order_trans)
  then have eK: "e \<le> K" by (rule pow2_le_imp_le)
  have r: "round64 x =
      (if 971 < q \<or> (q = 971 \<and> 2 ^ 53 \<le> \<bar>n\<bar>) then PosInfinity else Finite (of_int n * pow2 q))"
    using pos by (auto simp: round64_def Let_def e_def q_def m_def n_def)
  have m0: "0 \<le> m"
    using pos pow2_pos [of q] by (simp add: m_def)
  then have n0: "0 \<le> n"
    unfolding n_def by (rule round_nonneg)
  have xm: "x = m * pow2 q"
    using pow2_pos [of q] by (simp add: m_def)
  have "\<bar>of_int n * pow2 q - x\<bar> = \<bar>of_int n - m\<bar> * pow2 q"
    using pow2_pos [of q] by (simp add: xm abs_mult left_diff_distrib [symmetric])
  also have "\<dots> \<le> (1 / 2) * pow2 q"
    using round_err [of m] pow2_pos [of q] unfolding n_def
    by (intro mult_right_mono) simp_all
  also have "\<dots> = pow2 (q - 1)"
    using pow2_half [of q] by simp
  finally have err: "\<bar>of_int n * pow2 q - x\<bar> \<le> pow2 (q - 1)" .
  have y0: "0 \<le> of_int n * pow2 q"
    using n0 pow2_pos [of q] by simp
  show ?thesis
  proof (cases "e = K")
    case True
    with lo xK have x: "x = pow2 K" by simp
    have q: "q = K - 52"
      using True K1 by (simp add: q_def)
    have "m = pow2 52"
      using pow2_divide [of K "K - 52"] by (simp add: m_def x q)
    then have "m = of_int (2 ^ 52)"
      by (simp add: pow2_def)
    then have n: "n = 2 ^ 52"
      unfolding n_def by (simp only: roundTiesToEven_of_int)
    have y: "of_int n * pow2 q = pow2 K"
      using pow2_add [of 52 "K - 52"] by (simp add: n q) (simp add: pow2_def)
    have "round64 x = Finite (pow2 K)"
      using K2 by (simp add: r y) (simp add: n q)
    moreover have "0 \<le> pow2 K" "0 \<le> pow2 (K - 54)"
      using pow2_pos [of K] pow2_pos [of "K - 54"] by simp_all
    ultimately show ?thesis
      by (simp add: x)
  next
    case False
    with eK have e1: "e \<le> K - 1" by simp
    with K1 have qK: "q \<le> K - 53"
      by (simp add: q_def)
    with K2 have no: "\<not> (971 < q \<or> (q = 971 \<and> 2 ^ 53 \<le> \<bar>n\<bar>))"
      by simp
    have d: "0 \<le> K - q" using qK by simp
    have "m \<le> pow2 K / pow2 q"
      unfolding m_def using xK pow2_pos [of q] by (intro divide_right_mono) simp_all
    also have "\<dots> = pow2 (K - q)"
      by (rule pow2_divide)
    also have "\<dots> = of_int (2 ^ nat (K - q))"
      using d by (simp add: pow2_def)
    finally have "n \<le> 2 ^ nat (K - q)"
      unfolding n_def by (rule round_le)
    then have "(of_int n :: rat) \<le> of_int (2 ^ nat (K - q))"
      by (simp only: of_int_le_iff)
    then have "of_int n * pow2 q \<le> of_int (2 ^ nat (K - q)) * pow2 q"
      using pow2_pos [of q] by (intro mult_right_mono) simp_all
    also have "of_int (2 ^ nat (K - q)) * pow2 q = pow2 (K - q) * pow2 q"
      using d by (simp add: pow2_def)
    also have "\<dots> = pow2 K"
      using pow2_add [of "K - q" q] by simp
    finally have yK: "of_int n * pow2 q \<le> pow2 K" .
    have "pow2 (q - 1) \<le> pow2 (K - 54)"
      using qK by (intro pow2_mono) simp
    with err have "\<bar>of_int n * pow2 q - x\<bar> \<le> pow2 (K - 54)"
      by (rule order_trans)
    with y0 yK no show ?thesis
      by (simp add: r)
  qed
qed

lemma round_minus: "roundTiesToEven (- m) = - roundTiesToEven m"
proof (cases "of_int \<lfloor>m\<rfloor> = m")
  case True
  define k where "k = \<lfloor>m\<rfloor>"
  have mk: "m = of_int k"
    unfolding k_def by (rule True [symmetric])
  have "roundTiesToEven (of_int (- k)) = - k" "roundTiesToEven (of_int k) = k"
    by (rule roundTiesToEven_of_int)+
  then show ?thesis
    by (simp add: mk)
next
  case False
  have fl: "of_int \<lfloor>m\<rfloor> \<le> m" "m < of_int \<lfloor>m\<rfloor> + 1"
    using floor_correct [of m] by simp_all
  from False fl(1) have lt: "of_int \<lfloor>m\<rfloor> < m"
    by (rule order.not_eq_order_implies_strict)
  have "\<lfloor>- m\<rfloor> = - \<lfloor>m\<rfloor> - 1"
    using lt fl(2) by (intro floor_unique) simp_all
  then show ?thesis
    using lt fl(2) by (auto simp: roundTiesToEven_def Let_def)
qed

lemma round64_minus: "round64 (- x) = js_neg (round64 x)"
proof (cases "x = 0")
  case True
  then show ?thesis by (simp add: round64_def)
next
  case False
  have "- x / pow2 q = - (x / pow2 q)" for q by simp
  then show ?thesis
    using False by (auto simp: round64_def Let_def round_minus)
qed

lemma round64_bound_abs:
  assumes xK: "\<bar>x\<bar> \<le> pow2 K" and K: "- 1021 \<le> K" "K \<le> 1023"
  shows "\<exists>y. round64 x = Finite y \<and> \<bar>y - x\<bar> \<le> pow2 (K - 54)"
proof (cases "0 \<le> x")
  case True
  with xK have "x \<le> pow2 K" by simp
  from round64_bound [OF True this K] show ?thesis by blast
next
  case False
  then have n0: "0 \<le> - x" by simp
  with xK have "- x \<le> pow2 K" by simp
  from round64_bound [OF n0 this K]
  obtain y where y: "round64 (- x) = Finite y" "\<bar>y - (- x)\<bar> \<le> pow2 (K - 54)" by blast
  from y(1) have "js_neg (round64 x) = Finite y"
    by (simp add: round64_minus)
  then have "round64 x = Finite (- y)"
    by (cases "round64 x") simp_all
  moreover have "\<bar>- y - x\<bar> = \<bar>y - (- x)\<bar>"
    by (simp add: abs_minus_commute)
  ultimately show ?thesis
    using y(2) by simp
qed

lemma round64_of_int:
  assumes "\<bar>z\<bar> \<le> 2 ^ 53"
  shows "round64 (of_int z) = Finite (of_int z)"
proof (cases "0 \<le> z")
  case True
  with assms have "nat z \<le> 2 ^ 53" by (simp add: nat_le_iff)
  from round64_of_nat [OF this] have "round64 (of_nat (nat z)) = Finite (of_nat (nat z))" .
  moreover have "(of_nat (nat z) :: rat) = of_int z" using True by simp
  ultimately show ?thesis by simp
next
  case False
  with assms have "nat (- z) \<le> 2 ^ 53" by (simp add: nat_le_iff)
  from round64_of_nat [OF this]
  have "round64 (of_nat (nat (- z))) = Finite (of_nat (nat (- z)))" .
  moreover have "(of_nat (nat (- z)) :: rat) = - of_int z" using False by simp
  ultimately have "round64 (- of_int z) = Finite (- of_int z)" by simp
  then have "js_neg (round64 (- of_int z)) = Finite (of_int z)" by simp
  then show ?thesis using round64_minus [of "- of_int z"] by simp
qed

subsection \<open>Sums of whole amounts are exact\<close>

lemma sum_abs_nonneg:
  fixes f :: "'a \<Rightarrow> 'b :: linordered_idom"
  shows "0 \<le> sum_list (map (\<lambda>x. \<bar>f x\<bar>) xs)"
  by (induction xs) auto

lemma sum_abs_filter_le:
  fixes f :: "'a \<Rightarrow> 'b :: linordered_idom"
  shows "sum_list (map (\<lambda>x. \<bar>f x\<bar>) (filter P xs)) \<le> sum_list (map (\<lambda>x. \<bar>f x\<bar>) xs)"
  by (induction xs) (auto intro: add_increasing)

lemma abs_sum_le:
  fixes f :: "'a \<Rightarrow> 'b :: linordered_idom"
  shows "\<bar>sum_list (map f xs)\<bar> \<le> sum_list (map (\<lambda>x. \<bar>f x\<bar>) xs)"
proof (induction xs)
  case Nil
  then show ?case by simp
next
  case (Cons x xs)
  have "\<bar>f x + sum_list (map f xs)\<bar> \<le> \<bar>f x\<bar> + \<bar>sum_list (map f xs)\<bar>"
    by (rule abs_triangle_ineq)
  with Cons show ?case by simp
qed

lemma sum_abs_two_types:
  fixes f :: "entry \<Rightarrow> 'b :: linordered_idom"
  shows "sum_list (map (\<lambda>e. \<bar>f e\<bar>) (filter (\<lambda>e. type e = ''income'') es))
     + sum_list (map (\<lambda>e. \<bar>f e\<bar>) (filter (\<lambda>e. type e = ''expense'') es))
     \<le> sum_list (map (\<lambda>e. \<bar>f e\<bar>) es)"
  by (induction es) auto

lemma sum_perm:
  fixes f :: "'a \<Rightarrow> 'b :: comm_monoid_add"
  shows "mset xs' = mset xs \<Longrightarrow> sum_list (map f (filter P xs')) = sum_list (map f (filter P xs))"
proof -
  assume "mset xs' = mset xs"
  then have "mset (map f (filter P xs')) = mset (map f (filter P xs))"
    by simp
  then show ?thesis
    by (metis sum_mset_sum_list)
qed

lemma is_whole_eq: "is_whole v \<Longrightarrow> v = Finite (of_int (number_units v))"
  by (cases v) (auto simp: is_whole_def number_units_def)

lemma is_whole_of_int: "is_whole (Finite (of_int n))" "number_units (Finite (of_int n)) = n"
  by (simp_all add: is_whole_def number_units_def)

lemma js_add_whole:
  assumes "is_whole v" and "\<bar>a + number_units v\<bar> \<le> 2 ^ 53"
  shows "js_add (Finite (of_int a)) v = Finite (of_int (a + number_units v))"
proof -
  have r: "round64 (of_int a + of_int (number_units v))
      = Finite (of_int a + of_int (number_units v))"
    using round64_of_int [OF assms(2)] by simp
  have "js_add (Finite (of_int a)) (Finite (of_int (number_units v)))
      = Finite (of_int (a + number_units v))"
    by (simp add: r)
  then show ?thesis
    using is_whole_eq [OF assms(1)] by simp
qed

lemma or_zero_whole: "or_zero (Finite (of_int a)) = Finite (of_int a)"
  by (simp add: or_zero_def)

lemma foldl_whole:
  assumes h: "\<And>a. h (Finite (of_int a)) = Finite (of_int a)"
  shows "list_all is_whole vs
    \<Longrightarrow> \<bar>a\<bar> + sum_list (map (\<lambda>v. \<bar>number_units v\<bar>) vs) \<le> 2 ^ 53
    \<Longrightarrow> foldl (\<lambda>s v. js_add (h s) v) (Finite (of_int a)) vs
        = Finite (of_int (a + sum_list (map number_units vs)))"
proof (induction vs arbitrary: a)
  case Nil
  then show ?case by simp
next
  case (Cons v vs)
  have nn: "0 \<le> sum_list (map (\<lambda>v. \<bar>number_units v\<bar>) vs)"
    by (rule sum_abs_nonneg)
  from Cons.prems have v: "is_whole v" and vs: "list_all is_whole vs"
    and p: "\<bar>a\<bar> + \<bar>number_units v\<bar> + sum_list (map (\<lambda>v. \<bar>number_units v\<bar>) vs) \<le> 2 ^ 53"
    by (simp_all add: add.assoc)
  from p nn have b: "\<bar>a + number_units v\<bar> \<le> 2 ^ 53"
    by linarith
  from p have b': "\<bar>a + number_units v\<bar> + sum_list (map (\<lambda>v. \<bar>number_units v\<bar>) vs) \<le> 2 ^ 53"
    by linarith
  have "js_add (h (Finite (of_int a))) v = Finite (of_int (a + number_units v))"
    using v b by (simp add: h js_add_whole)
  with Cons.IH [OF vs b'] show ?case
    by (simp add: add.assoc)
qed

lemma sumOfType_whole:
  assumes "wholeAmounts es"
  shows "sumOfType t es = Finite (of_int (sum_list (map units (filter (\<lambda>e. type e = t) es))))"
proof -
  let ?xs = "filter (\<lambda>e. type e = t) es"
  let ?vs = "map (\<lambda>e. parseFloat (amount e)) ?xs"
  have fm: "foldl (\<lambda>sum entry. js_add sum (parseFloat (amount entry))) s xs
      = foldl (\<lambda>s v. js_add s v) s (map (\<lambda>e. parseFloat (amount e)) xs)" for s xs
    by (induction xs arbitrary: s) simp_all
  have u: "map number_units ?vs = map units ?xs"
    "map (\<lambda>v. \<bar>number_units v\<bar>) ?vs = map (\<lambda>e. \<bar>units e\<bar>) ?xs"
    by (simp_all add: units_def)
  have w: "list_all is_whole ?vs"
    using assms by (simp add: wholeAmounts_def list_all_iff)
  have "sum_list (map (\<lambda>e. \<bar>units e\<bar>) ?xs) \<le> sum_list (map (\<lambda>e. \<bar>units e\<bar>) es)"
    by (rule sum_abs_filter_le)
  with assms have b: "\<bar>0\<bar> + sum_list (map (\<lambda>v. \<bar>number_units v\<bar>) ?vs) \<le> 2 ^ 53"
    unfolding u by (simp add: wholeAmounts_def)
  have "foldl (\<lambda>s v. js_add s v) (Finite (of_int 0)) ?vs
      = Finite (of_int (0 + sum_list (map number_units ?vs)))"
    using w b by (rule foldl_whole [where h = "\<lambda>s. s", OF refl])
  then show ?thesis
    unfolding u by (simp add: sumOfType_def fm)
qed

lemma wholeAmounts_filter: "wholeAmounts es \<Longrightarrow> wholeAmounts (filter P es)"
proof -
  assume a: "wholeAmounts es"
  have "sum_list (map (\<lambda>e. \<bar>units e\<bar>) (filter P es)) \<le> sum_list (map (\<lambda>e. \<bar>units e\<bar>) es)"
    by (rule sum_abs_filter_le)
  with a show ?thesis
    by (simp add: wholeAmounts_def list_all_iff)
qed

lemma wholeAmounts_perm: "mset es' = mset es \<Longrightarrow> wholeAmounts es' = wholeAmounts es"
proof -
  assume p: "mset es' = mset es"
  then have "set es' = set es" by (rule mset_eq_setD)
  moreover have "sum_list (map (\<lambda>e. \<bar>units e\<bar>) es') = sum_list (map (\<lambda>e. \<bar>units e\<bar>) es)"
    using sum_perm [OF p, of "\<lambda>e. \<bar>units e\<bar>" "\<lambda>_. True"] by simp
  ultimately show ?thesis
    by (simp add: wholeAmounts_def list_all_iff)
qed

lemma filter_empty_perm:
  "mset es' = mset es \<Longrightarrow> (filter P es' = []) = (filter P es = [])"
  by (metis filter_empty_conv mset_eq_setD)

lemma balance_whole:
  assumes "wholeAmounts es"
  shows "js_sub (sumOfType ''income'' es) (sumOfType ''expense'' es)
    = Finite (of_int (sum_list (map units (filter (\<lambda>e. type e = ''income'') es))
                      - sum_list (map units (filter (\<lambda>e. type e = ''expense'') es))))"
proof -
  define I where "I = sum_list (map units (filter (\<lambda>e. type e = ''income'') es))"
  define E where "E = sum_list (map units (filter (\<lambda>e. type e = ''expense'') es))"
  define AI where "AI = sum_list (map (\<lambda>e. \<bar>units e\<bar>) (filter (\<lambda>e. type e = ''income'') es))"
  define AE where "AE = sum_list (map (\<lambda>e. \<bar>units e\<bar>) (filter (\<lambda>e. type e = ''expense'') es))"
  have "\<bar>I\<bar> \<le> AI" "\<bar>E\<bar> \<le> AE"
    unfolding I_def E_def AI_def AE_def by (rule abs_sum_le)+
  moreover have "AI + AE \<le> sum_list (map (\<lambda>e. \<bar>units e\<bar>) es)"
    unfolding AI_def AE_def by (rule sum_abs_two_types)
  moreover from assms have "sum_list (map (\<lambda>e. \<bar>units e\<bar>) es) \<le> 2 ^ 53"
    by (simp add: wholeAmounts_def)
  ultimately have "\<bar>I - E\<bar> \<le> 2 ^ 53"
    by linarith
  from round64_of_int [OF this]
  have "round64 (of_int I - of_int E) = Finite (of_int I - of_int E)"
    by simp
  then show ?thesis
    by (simp add: sumOfType_whole [OF assms] js_sub_def I_def E_def)
qed

subsection \<open>Sums of amounts with cents are close\<close>

lemma pow2_double: "pow2 (K - 53) = 2 * pow2 (K - 54)"
  using pow2_add [of 1 "K - 54"] by (simp add: pow2_def)

lemma is_finite_eq: "is_finite v \<Longrightarrow> v = Finite (number_value v)"
  by (cases v) (simp_all add: is_finite_def number_value_def)

lemma or_zero_Finite: "or_zero (Finite q) = Finite q"
  by (simp add: or_zero_def)

lemma foldl_bound:
  assumes h: "\<And>q. h (Finite q) = Finite q" and K: "- 1021 \<le> K" "K \<le> 1023"
  shows "list_all is_finite vs \<Longrightarrow> \<bar>t - s\<bar> \<le> of_nat j * pow2 (K - 54)
    \<Longrightarrow> \<bar>s\<bar> + sum_list (map (\<lambda>v. \<bar>number_value v\<bar>) vs) + of_nat (j + length vs) * pow2 (K - 54)
          \<le> pow2 K
    \<Longrightarrow> \<exists>t'. foldl (\<lambda>a v. js_add (h a) v) (Finite t) vs = Finite t'
          \<and> \<bar>t' - (s + sum_list (map number_value vs))\<bar> \<le> of_nat (j + length vs) * pow2 (K - 54)"
proof (induction vs arbitrary: t s j)
  case Nil
  then show ?case by simp
next
  case (Cons v vs)
  define eps where "eps = pow2 (K - 54)"
  define dj where "dj = of_nat j * eps"
  define dn where "dn = of_nat (length vs) * eps"
  define R where "R = sum_list (map (\<lambda>v. \<bar>number_value v\<bar>) vs)"
  define a where "a = number_value v"
  have eps: "0 < eps" by (simp add: eps_def pow2_pos)
  have dn: "0 \<le> dn" using eps by (simp add: dn_def)
  have R: "0 \<le> R" unfolding R_def by (rule sum_abs_nonneg)
  from Cons.prems(1) have v: "is_finite v" and vs: "list_all is_finite vs" by simp_all
  from v have va: "v = Finite a"
    using is_finite_eq [of v] by (simp add: a_def)
  have ts: "\<bar>t - s\<bar> \<le> dj"
    using Cons.prems(2) by (simp add: eps_def dj_def)
  have b: "\<bar>s\<bar> + \<bar>a\<bar> + R + (dj + eps + dn) \<le> pow2 K"
    using Cons.prems(3) by (simp add: eps_def a_def R_def dj_def dn_def algebra_simps)
  from ts b R dn eps have ta: "\<bar>t + a\<bar> \<le> pow2 K"
    by linarith
  obtain y where y: "round64 (t + a) = Finite y" "\<bar>y - (t + a)\<bar> \<le> eps"
    using round64_bound_abs [OF ta K] by (auto simp: eps_def)
  from y(2) ts have "\<bar>y - (s + a)\<bar> \<le> dj + eps"
    by linarith
  then have ys: "\<bar>y - (s + a)\<bar> \<le> of_nat (j + 1) * pow2 (K - 54)"
    by (simp add: dj_def eps_def algebra_simps)
  from b have "\<bar>s + a\<bar> + R + (dj + eps + dn) \<le> pow2 K"
    by linarith
  then have b': "\<bar>s + a\<bar> + sum_list (map (\<lambda>v. \<bar>number_value v\<bar>) vs)
      + of_nat ((j + 1) + length vs) * pow2 (K - 54) \<le> pow2 K"
    by (simp add: R_def dj_def dn_def eps_def algebra_simps)
  obtain t' where t': "foldl (\<lambda>a v. js_add (h a) v) (Finite y) vs = Finite t'"
      "\<bar>t' - ((s + a) + sum_list (map number_value vs))\<bar>
         \<le> of_nat ((j + 1) + length vs) * pow2 (K - 54)"
    using Cons.IH [OF vs ys b'] by blast
  have "foldl (\<lambda>a v. js_add (h a) v) (Finite t) (v # vs) = Finite t'"
    using t'(1) y(1) by (simp add: va h)
  with t'(2) show ?case
    by (simp add: a_def add.assoc)
qed

lemma bounded_filter: "boundedAmounts K es \<Longrightarrow> boundedAmounts K (filter P es)"
proof -
  assume b: "boundedAmounts K es"
  have "(of_nat (length (filter P es)) :: rat) \<le> of_nat (length es)"
    by (simp only: of_nat_le_iff) simp
  then have "of_nat (length (filter P es)) * pow2 (K - 53) \<le> of_nat (length es) * pow2 (K - 53)"
    using pow2_pos [of "K - 53"] by (intro mult_right_mono) simp_all
  with sum_abs_filter_le [of exact_amount P es] b show ?thesis
    by (simp add: boundedAmounts_def list_all_iff)
qed

lemma bounded_perm: "mset es' = mset es \<Longrightarrow> boundedAmounts K es' = boundedAmounts K es"
proof -
  assume p: "mset es' = mset es"
  then have "set es' = set es" by (rule mset_eq_setD)
  moreover have "length es' = length es"
    using p by (rule mset_eq_length)
  moreover have "sum_list (map (\<lambda>e. \<bar>exact_amount e\<bar>) es')
      = sum_list (map (\<lambda>e. \<bar>exact_amount e\<bar>) es)"
    using sum_perm [OF p, of "\<lambda>e. \<bar>exact_amount e\<bar>" "\<lambda>_. True"] by simp
  ultimately show ?thesis
    by (simp add: boundedAmounts_def list_all_iff)
qed

lemma fold_bounded:
  assumes b: "boundedAmounts K xs" and h: "\<And>q. h (Finite q) = Finite q"
  shows "\<exists>T. foldl (\<lambda>a e. js_add (h a) (parseFloat (amount e))) (Finite 0) xs = Finite T
      \<and> \<bar>T - sum_list (map exact_amount xs)\<bar> \<le> of_nat (length xs) * pow2 (K - 54)"
proof -
  let ?vs = "map (\<lambda>e. parseFloat (amount e)) xs"
  have fm: "foldl (\<lambda>a e. js_add (h a) (parseFloat (amount e))) s ys
      = foldl (\<lambda>a v. js_add (h a) v) s (map (\<lambda>e. parseFloat (amount e)) ys)" for s ys
    by (induction ys arbitrary: s) simp_all
  have u: "map number_value ?vs = map exact_amount xs"
    "map (\<lambda>v. \<bar>number_value v\<bar>) ?vs = map (\<lambda>e. \<bar>exact_amount e\<bar>) xs"
    by (simp_all add: exact_amount_def)
  from b have K: "- 1021 \<le> K" "K \<le> 1023" and w: "list_all is_finite ?vs"
    and s: "sum_list (map (\<lambda>e. \<bar>exact_amount e\<bar>) xs) + of_nat (length xs) * pow2 (K - 53)
        \<le> pow2 K"
    by (simp_all add: boundedAmounts_def list_all_iff)
  have "0 \<le> of_nat (length xs) * pow2 (K - 54)"
    using pow2_pos [of "K - 54"] by simp
  with s have c: "\<bar>0\<bar> + sum_list (map (\<lambda>v. \<bar>number_value v\<bar>) ?vs)
      + of_nat (0 + length ?vs) * pow2 (K - 54) \<le> pow2 K"
    unfolding u by (simp add: pow2_double)
  have "\<exists>t'. foldl (\<lambda>a v. js_add (h a) v) (Finite 0) ?vs = Finite t'
      \<and> \<bar>t' - (0 + sum_list (map number_value ?vs))\<bar> \<le> of_nat (0 + length ?vs) * pow2 (K - 54)"
    using w _ c by (rule foldl_bound [OF h K]) simp
  then show ?thesis
    unfolding u by (auto simp: fm)
qed

lemma sumOfType_bounded:
  assumes "boundedAmounts K es"
  shows "\<exists>T. sumOfType t es = Finite T
      \<and> \<bar>T - sum_list (map exact_amount (filter (\<lambda>e. type e = t) es))\<bar>
          \<le> of_nat (length (filter (\<lambda>e. type e = t) es)) * pow2 (K - 54)"
  using fold_bounded [OF bounded_filter [OF assms], of "\<lambda>a. a" "\<lambda>e. type e = t"]
  by (simp add: sumOfType_def)

lemma close_sumOfType:
  assumes p: "mset es' = mset es" and b: "boundedAmounts K es"
  shows "close (of_nat (length (filter (\<lambda>e. type e = t) es)) * pow2 (K - 53))
           (sumOfType t es') (sumOfType t es)"
proof -
  have b': "boundedAmounts K es'"
    using bounded_perm [OF p, of K] b by simp
  have l: "length (filter (\<lambda>e. type e = t) es') = length (filter (\<lambda>e. type e = t) es)"
    using mset_eq_length [of "filter (\<lambda>e. type e = t) es'" "filter (\<lambda>e. type e = t) es"] p
    by simp
  obtain T where T: "sumOfType t es = Finite T"
      "\<bar>T - sum_list (map exact_amount (filter (\<lambda>e. type e = t) es))\<bar>
          \<le> of_nat (length (filter (\<lambda>e. type e = t) es)) * pow2 (K - 54)"
    using sumOfType_bounded [OF b, of t] by blast
  obtain T' where T': "sumOfType t es' = Finite T'"
      "\<bar>T' - sum_list (map exact_amount (filter (\<lambda>e. type e = t) es))\<bar>
          \<le> of_nat (length (filter (\<lambda>e. type e = t) es)) * pow2 (K - 54)"
    using sumOfType_bounded [OF b', of t] sum_perm [OF p, of exact_amount "\<lambda>e. type e = t"] l
    by auto
  from T(2) T'(2) have "\<bar>T' - T\<bar> \<le> of_nat (length (filter (\<lambda>e. type e = t) es)) * pow2 (K - 53)"
    by (simp add: pow2_double abs_le_iff algebra_simps)
  then show ?thesis
    by (simp add: close_def T(1) T'(1))
qed

lemma two_filters_length:
  "length (filter (\<lambda>e. type e = ''income'') es) + length (filter (\<lambda>e. type e = ''expense'') es)
   \<le> length es"
  by (induction es) auto

lemma balance_bounded:
  assumes b: "boundedAmounts K es"
  shows "\<exists>I E y. sumOfType ''income'' es = Finite I \<and> sumOfType ''expense'' es = Finite E
      \<and> js_sub (sumOfType ''income'' es) (sumOfType ''expense'' es) = Finite y
      \<and> \<bar>y - (I - E)\<bar> \<le> pow2 (K - 54)"
proof -
  define eps where "eps = pow2 (K - 54)"
  define nI where "nI = length (filter (\<lambda>e. type e = ''income'') es)"
  define nE where "nE = length (filter (\<lambda>e. type e = ''expense'') es)"
  define SI where "SI = sum_list (map exact_amount (filter (\<lambda>e. type e = ''income'') es))"
  define SE where "SE = sum_list (map exact_amount (filter (\<lambda>e. type e = ''expense'') es))"
  define AI where
    "AI = sum_list (map (\<lambda>e. \<bar>exact_amount e\<bar>) (filter (\<lambda>e. type e = ''income'') es))"
  define AE where
    "AE = sum_list (map (\<lambda>e. \<bar>exact_amount e\<bar>) (filter (\<lambda>e. type e = ''expense'') es))"
  define A where "A = sum_list (map (\<lambda>e. \<bar>exact_amount e\<bar>) es)"
  define dI where "dI = of_nat nI * eps"
  define dE where "dE = of_nat nE * eps"
  define dn where "dn = of_nat (length es) * eps"
  from b have K: "- 1021 \<le> K" "K \<le> 1023" and s: "A + (dn + dn) \<le> pow2 K"
    by (simp_all add: boundedAmounts_def A_def dn_def eps_def pow2_double)
  have eps: "0 < eps" by (simp add: eps_def pow2_pos)
  obtain I where I: "sumOfType ''income'' es = Finite I" "\<bar>I - SI\<bar> \<le> dI"
    using sumOfType_bounded [OF b, of "''income''"]
    unfolding SI_def dI_def nI_def eps_def by blast
  obtain E where E: "sumOfType ''expense'' es = Finite E" "\<bar>E - SE\<bar> \<le> dE"
    using sumOfType_bounded [OF b, of "''expense''"]
    unfolding SE_def dE_def nE_def eps_def by blast
  have a: "\<bar>SI\<bar> \<le> AI" "\<bar>SE\<bar> \<le> AE"
    unfolding SI_def SE_def AI_def AE_def by (rule abs_sum_le)+
  have aa: "AI + AE \<le> A"
    unfolding AI_def AE_def A_def by (rule sum_abs_two_types)
  have "nI + nE \<le> length es"
    unfolding nI_def nE_def by (rule two_filters_length)
  then have "(of_nat (nI + nE) :: rat) \<le> of_nat (length es)"
    by (simp only: of_nat_le_iff)
  then have "of_nat (nI + nE) * eps \<le> of_nat (length es) * eps"
    using eps by (intro mult_right_mono) simp_all
  then have dd: "dI + dE \<le> dn"
    by (simp add: dI_def dE_def dn_def algebra_simps)
  have dn: "0 \<le> dn" using eps by (simp add: dn_def)
  from I(2) E(2) a aa dd dn s have "\<bar>I - E\<bar> \<le> pow2 K"
    by linarith
  from round64_bound_abs [OF this K]
  obtain y where "round64 (I - E) = Finite y" "\<bar>y - (I - E)\<bar> \<le> pow2 (K - 54)" by blast
  then show ?thesis
    by (simp add: I(1) E(1) js_sub_def)
qed

lemma close_balance:
  assumes p: "mset es' = mset es" and b: "boundedAmounts K es"
  shows "close (of_nat (length es + 1) * pow2 (K - 53))
           (js_sub (sumOfType ''income'' es') (sumOfType ''expense'' es'))
           (js_sub (sumOfType ''income'' es) (sumOfType ''expense'' es))"
proof -
  define nI where "nI = length (filter (\<lambda>e. type e = ''income'') es)"
  define nE where "nE = length (filter (\<lambda>e. type e = ''expense'') es)"
  define d where "d = pow2 (K - 53)"
  have b': "boundedAmounts K es'"
    using bounded_perm [OF p, of K] b by simp
  obtain I E y where a: "sumOfType ''income'' es = Finite I" "sumOfType ''expense'' es = Finite E"
      "js_sub (sumOfType ''income'' es) (sumOfType ''expense'' es) = Finite y"
      "\<bar>y - (I - E)\<bar> \<le> pow2 (K - 54)"
    using balance_bounded [OF b] by blast
  obtain I' E' y' where a': "sumOfType ''income'' es' = Finite I'"
      "sumOfType ''expense'' es' = Finite E'"
      "js_sub (sumOfType ''income'' es') (sumOfType ''expense'' es') = Finite y'"
      "\<bar>y' - (I' - E')\<bar> \<le> pow2 (K - 54)"
    using balance_bounded [OF b'] by blast
  have cI: "\<bar>I' - I\<bar> \<le> of_nat nI * d"
    using close_sumOfType [OF p b, of "''income''"] by (simp add: close_def a a' nI_def d_def)
  have cE: "\<bar>E' - E\<bar> \<le> of_nat nE * d"
    using close_sumOfType [OF p b, of "''expense''"] by (simp add: close_def a a' nE_def d_def)
  have "nI + nE \<le> length es"
    unfolding nI_def nE_def by (rule two_filters_length)
  then have "(of_nat (nI + nE) :: rat) \<le> of_nat (length es)"
    by (simp only: of_nat_le_iff)
  then have "of_nat (nI + nE) * d \<le> of_nat (length es) * d"
    using pow2_pos [of "K - 53"] unfolding d_def by (intro mult_right_mono) simp_all
  then have n: "of_nat nI * d + of_nat nE * d + d \<le> of_nat (length es + 1) * d"
    by (simp add: algebra_simps)
  have e2: "pow2 (K - 54) + pow2 (K - 54) = d"
    by (simp add: d_def pow2_double)
  have "\<bar>y' - y\<bar> \<le> \<bar>y' - (I' - E')\<bar> + \<bar>I' - I\<bar> + \<bar>E' - E\<bar> + \<bar>y - (I - E)\<bar>"
    by linarith
  also have "\<dots> \<le> pow2 (K - 54) + of_nat nI * d + of_nat nE * d + pow2 (K - 54)"
    using a(4) a'(4) cI cE by simp
  also have "\<dots> = of_nat nI * d + of_nat nE * d + d"
    using e2 by simp
  finally have "\<bar>y' - y\<bar> \<le> of_nat (length es + 1) * d"
    using n by simp
  then show ?thesis
    by (simp add: close_def a(3) a'(3) d_def)
qed

subsection \<open>The object of the breakdown\<close>

lemma get_property_plain:
  "\<not> inherited k \<Longrightarrow>
   get_property acc k = (case map_of acc k of None \<Rightarrow> Undefined | Some v \<Rightarrow> Value v)"
  by (simp add: get_property_def inherited_def split: option.splits)

lemma set_property_plain: "\<not> inherited k \<Longrightarrow> set_property acc k v = AList.update k v acc"
  by (simp add: set_property_def inherited_def)

lemma map_of_addCategory_other:
  "category e \<noteq> c \<Longrightarrow> map_of (addCategory acc e) c = map_of acc c"
  by (simp add: addCategory_def set_property_def update_conv')

lemma map_of_addCategory:
  "\<not> inherited (category e) \<Longrightarrow>
   map_of (addCategory acc e) =
     (map_of acc)(category e \<mapsto>
        js_plus (or_zero_reading
            (case map_of acc (category e) of None \<Rightarrow> Undefined | Some v \<Rightarrow> Value v))
          (parseFloat (amount e)))"
  by (simp add: addCategory_def set_property_plain get_property_plain update_conv')

lemma map_of_foldl_addCategory:
  assumes c: "\<not> inherited c"
  shows "map_of (foldl addCategory acc es) c =
     (if filter (\<lambda>e. category e = c) es = [] then map_of acc c
      else Some (foldl (\<lambda>s e. js_plus (or_zero_reading (Value s)) (parseFloat (amount e)))
                  (case map_of acc c of None \<Rightarrow> Num (Finite 0) | Some v \<Rightarrow> v)
                  (filter (\<lambda>e. category e = c) es)))"
proof (induction es arbitrary: acc)
  case Nil
  then show ?case by simp
next
  case (Cons e es)
  have oz: "or_zero_reading (Value (case map_of acc c of None \<Rightarrow> Num (Finite 0) | Some v \<Rightarrow> v))
      = or_zero_reading (case map_of acc c of None \<Rightarrow> Undefined | Some v \<Rightarrow> Value v)"
    by (cases "map_of acc c") (simp_all add: or_zero_def)
  show ?case
  proof (cases "category e = c")
    case True
    then show ?thesis
      using Cons.IH [of "addCategory acc e"] c by (simp add: map_of_addCategory oz)
  next
    case False
    then show ?thesis
      using Cons.IH [of "addCategory acc e"] by (simp add: map_of_addCategory_other)
  qed
qed

lemma map_of_foldl_addCategory_proto:
  "map_of (foldl addCategory acc es) ''__proto__'' = map_of acc ''__proto__''"
proof (induction es arbitrary: acc)
  case Nil
  then show ?case by simp
next
  case (Cons e es)
  have "map_of (addCategory acc e) ''__proto__'' = map_of acc ''__proto__''"
    by (cases "category e = ''__proto__''")
      (simp_all add: map_of_addCategory_other, simp add: addCategory_def set_property_def)
  with Cons.IH [of "addCategory acc e"] show ?case by simp
qed

lemma foldl_js_plus:
  "foldl (\<lambda>s e. js_plus (or_zero_reading (Value s)) (parseFloat (amount e))) (Num x) ys
   = Num (foldl (\<lambda>s e. js_add (or_zero s) (parseFloat (amount e))) x ys)"
  by (induction ys arbitrary: x) simp_all

lemma number_of_whole:
  "is_whole (number_of v) \<Longrightarrow> v = Num (Finite (of_int (number_units (number_of v))))"
proof (cases v)
  case (Num x)
  assume "is_whole (number_of v)"
  with Num is_whole_eq [of x] show ?thesis by simp
next
  case (Str s)
  assume "is_whole (number_of v)"
  with Str show ?thesis by (simp add: is_whole_def)
qed

lemma number_of_finite:
  "is_finite (number_of v) \<Longrightarrow> v = Num (Finite (number_value (number_of v)))"
proof (cases v)
  case (Num x)
  assume "is_finite (number_of v)"
  with Num is_finite_eq [of x] show ?thesis by simp
next
  case (Str s)
  assume "is_finite (number_of v)"
  with Str show ?thesis by (simp add: is_finite_def)
qed

subsection \<open>The keys in the order of \<open>Object.keys\<close>\<close>

lemma own_properties_mset: "mset (own_properties obj) = mset obj"
  by (simp add: own_properties_def)

lemma own_properties_set: "set (own_properties obj) = set obj"
  using own_properties_mset [of obj] by (rule mset_eq_setD)

lemma own_properties_sum:
  fixes f :: "string \<times> property \<Rightarrow> 'a :: comm_monoid_add"
  shows "sum_list (map f (own_properties obj)) = sum_list (map f obj)"
proof -
  have "mset (map f (own_properties obj)) = mset (map f obj)"
    by (simp add: own_properties_mset)
  then show ?thesis
    by (metis sum_mset_sum_list)
qed

lemma own_properties_length: "length (own_properties obj) = length obj"
  using own_properties_mset [of obj] by (rule mset_eq_length)

lemma foldl_add_values:
  "foldl add_values (Num x) (map Num vs) = Num (foldl js_add x vs)"
  by (induction vs arbitrary: x) simp_all

lemma values_are_numbers:
  assumes "\<And>p. p \<in> set obj \<Longrightarrow> snd p = Num (number_of (snd p))"
  shows "Object_values obj = map Num (map (\<lambda>p. number_of (snd p)) (own_properties obj))"
  using assms by (simp add: Object_values_def own_properties_set)

subsection \<open>The breakdown of whole amounts\<close>

lemma update_total:
  fixes f :: "'v \<Rightarrow> 'b :: ab_group_add"
  shows "sum_list (map (\<lambda>p. f (snd p)) (AList.update k v al))
   = sum_list (map (\<lambda>p. f (snd p)) al)
       - (case map_of al k of None \<Rightarrow> 0 | Some old \<Rightarrow> f old) + f v"
  by (induction al) auto

lemma update_all:
  "list_all (\<lambda>p. P (snd p)) al \<Longrightarrow> P v \<Longrightarrow> list_all (\<lambda>p. P (snd p)) (AList.update k v al)"
  by (induction al) auto

lemma lookup_le_total:
  fixes f :: "'v \<Rightarrow> 'b :: linordered_idom"
  shows "map_of al k = Some old \<Longrightarrow> \<bar>f old\<bar> \<le> sum_list (map (\<lambda>p. \<bar>f (snd p)\<bar>) al)"
proof (induction al)
  case Nil
  then show ?case by simp
next
  case (Cons p al)
  have r: "0 \<le> sum_list (map (\<lambda>p. \<bar>f (snd p)\<bar>) al)"
    by (rule sum_abs_nonneg)
  show ?case
  proof (cases "fst p = k")
    case True
    with Cons.prems r show ?thesis by (cases p) auto
  next
    case False
    with Cons.prems have "map_of al k = Some old" by (cases p) auto
    from Cons.IH [OF this] show ?thesis by (simp add: add_increasing)
  qed
qed

lemma lookup_all:
  "list_all (\<lambda>p. P (snd p)) al \<Longrightarrow> map_of al k = Some old \<Longrightarrow> P old"
  by (induction al) (auto split: if_splits)

lemma length_update_le: "length (AList.update k v al) \<le> length al + 1"
  by (induction al) auto

lemma addCategory_whole:
  assumes W: "list_all (\<lambda>p. is_whole (number_of (snd p))) acc"
    and we: "is_whole (parseFloat (amount e))"
    and b: "sum_list (map (\<lambda>p. \<bar>number_units (number_of (snd p))\<bar>) acc) + \<bar>units e\<bar> \<le> 2 ^ 53"
    and plain: "\<not> inherited (category e)"
  shows "list_all (\<lambda>p. is_whole (number_of (snd p))) (addCategory acc e)
    \<and> sum_list (map (\<lambda>p. number_units (number_of (snd p))) (addCategory acc e))
        = sum_list (map (\<lambda>p. number_units (number_of (snd p))) acc) + units e
    \<and> sum_list (map (\<lambda>p. \<bar>number_units (number_of (snd p))\<bar>) (addCategory acc e))
        \<le> sum_list (map (\<lambda>p. \<bar>number_units (number_of (snd p))\<bar>) acc) + \<bar>units e\<bar>"
proof -
  define a where
    "a = (case map_of acc (category e) of None \<Rightarrow> 0 | Some old \<Rightarrow> number_units (number_of old))"
  define old where "old = or_zero_reading (get_property acc (category e))"
  define V where "V = sum_list (map (\<lambda>p. number_units (number_of (snd p))) acc)"
  define A where "A = sum_list (map (\<lambda>p. \<bar>number_units (number_of (snd p))\<bar>) acc)"
  have A0: "0 \<le> A"
    unfolding A_def by (rule sum_abs_nonneg)
  have old: "old = Value (Num (Finite (of_int a)))"
  proof (cases "map_of acc (category e)")
    case None
    then show ?thesis by (simp add: old_def a_def get_property_plain [OF plain])
  next
    case (Some v)
    with W have "is_whole (number_of v)" by (rule lookup_all)
    then have "v = Num (Finite (of_int (number_units (number_of v))))" by (rule number_of_whole)
    then have "or_zero_reading (Value v) = Value (Num (Finite (of_int (number_units (number_of v)))))"
      using or_zero_whole [of "number_units (number_of v)"] by (cases v) simp_all
    with Some show ?thesis by (simp add: old_def a_def get_property_plain [OF plain])
  qed
  have aA: "\<bar>a\<bar> \<le> A"
  proof (cases "map_of acc (category e)")
    case None
    with A0 show ?thesis by (simp add: a_def)
  next
    case (Some v)
    from lookup_le_total [OF Some, of "\<lambda>v. number_units (number_of v)"] Some show ?thesis
      by (simp add: a_def A_def)
  qed
  from aA b have ab: "\<bar>a + number_units (parseFloat (amount e))\<bar> \<le> 2 ^ 53"
    unfolding A_def [symmetric] units_def by linarith
  have "js_add (Finite (of_int a)) (parseFloat (amount e)) = Finite (of_int (a + units e))"
    unfolding units_def using we ab by (rule js_add_whole)
  then have new: "js_plus old (parseFloat (amount e)) = Num (Finite (of_int (a + units e)))"
    by (simp add: old)
  have ac: "addCategory acc e
      = AList.update (category e) (Num (Finite (of_int (a + units e)))) acc"
    using new by (simp add: addCategory_def old_def set_property_plain [OF plain])
  have "sum_list (map (\<lambda>p. number_units (number_of (snd p))) (addCategory acc e))
      = V - a + number_units (number_of (Num (Finite (of_int (a + units e)))))"
    unfolding ac V_def a_def by (rule update_total)
  then have s1: "sum_list (map (\<lambda>p. number_units (number_of (snd p))) (addCategory acc e))
      = V + units e"
    by (simp only: number_of.simps is_whole_of_int)
  have "sum_list (map (\<lambda>p. \<bar>number_units (number_of (snd p))\<bar>) (addCategory acc e))
      = A - (case map_of acc (category e) of None \<Rightarrow> 0
             | Some old \<Rightarrow> \<bar>number_units (number_of old)\<bar>)
          + \<bar>number_units (number_of (Num (Finite (of_int (a + units e)))))\<bar>"
    unfolding ac A_def by (rule update_total [where f = "\<lambda>v. \<bar>number_units (number_of v)\<bar>"])
  moreover have "(case map_of acc (category e) of None \<Rightarrow> 0
             | Some old \<Rightarrow> \<bar>number_units (number_of old)\<bar>) = \<bar>a\<bar>"
    by (cases "map_of acc (category e)") (simp_all add: a_def)
  ultimately have "sum_list (map (\<lambda>p. \<bar>number_units (number_of (snd p))\<bar>) (addCategory acc e))
      = A - \<bar>a\<bar> + \<bar>a + units e\<bar>"
    by (simp only: number_of.simps is_whole_of_int)
  then have s2: "sum_list (map (\<lambda>p. \<bar>number_units (number_of (snd p))\<bar>) (addCategory acc e))
      \<le> A + \<bar>units e\<bar>"
    by linarith
  have "list_all (\<lambda>p. is_whole (number_of (snd p))) (addCategory acc e)"
    unfolding ac using W by (rule update_all) (simp only: number_of.simps is_whole_of_int)
  with s1 s2 show ?thesis
    by (simp add: V_def A_def)
qed

lemma foldl_addCategory_whole:
  "list_all (\<lambda>p. is_whole (number_of (snd p))) acc
   \<Longrightarrow> list_all (\<lambda>e. is_whole (parseFloat (amount e))) es
   \<Longrightarrow> sum_list (map (\<lambda>p. \<bar>number_units (number_of (snd p))\<bar>) acc)
         + sum_list (map (\<lambda>e. \<bar>units e\<bar>) es) \<le> 2 ^ 53
   \<Longrightarrow> plainCategories es
   \<Longrightarrow> list_all (\<lambda>p. is_whole (number_of (snd p))) (foldl addCategory acc es)
      \<and> sum_list (map (\<lambda>p. number_units (number_of (snd p))) (foldl addCategory acc es))
          = sum_list (map (\<lambda>p. number_units (number_of (snd p))) acc) + sum_list (map units es)
      \<and> sum_list (map (\<lambda>p. \<bar>number_units (number_of (snd p))\<bar>) (foldl addCategory acc es))
          \<le> sum_list (map (\<lambda>p. \<bar>number_units (number_of (snd p))\<bar>) acc)
              + sum_list (map (\<lambda>e. \<bar>units e\<bar>) es)"
proof (induction es arbitrary: acc)
  case Nil
  then show ?case by simp
next
  case (Cons e es)
  have r: "0 \<le> sum_list (map (\<lambda>e. \<bar>units e\<bar>) es)"
    by (rule sum_abs_nonneg)
  from Cons.prems have we: "is_whole (parseFloat (amount e))"
    and wes: "list_all (\<lambda>e. is_whole (parseFloat (amount e))) es"
    and p: "sum_list (map (\<lambda>p. \<bar>number_units (number_of (snd p))\<bar>) acc)
        + (\<bar>units e\<bar> + sum_list (map (\<lambda>e. \<bar>units e\<bar>) es)) \<le> 2 ^ 53"
    and plain: "\<not> inherited (category e)" and plains: "plainCategories es"
    by (simp_all add: plainCategories_def)
  from p r have b: "sum_list (map (\<lambda>p. \<bar>number_units (number_of (snd p))\<bar>) acc) + \<bar>units e\<bar>
      \<le> 2 ^ 53"
    by linarith
  note st = addCategory_whole [OF Cons.prems(1) we b plain]
  from st p
  have b': "sum_list (map (\<lambda>p. \<bar>number_units (number_of (snd p))\<bar>) (addCategory acc e))
      + sum_list (map (\<lambda>e. \<bar>units e\<bar>) es) \<le> 2 ^ 53"
    by linarith
  from Cons.IH [OF conjunct1 [OF st] wes b' plains] st show ?case
    by (simp add: add.assoc)
qed

lemma sumValues_whole:
  assumes W: "list_all (\<lambda>p. is_whole (number_of (snd p))) bd"
    and b: "sum_list (map (\<lambda>p. \<bar>number_units (number_of (snd p))\<bar>) bd) \<le> 2 ^ 53"
  shows "sumValues bd
    = Num (Finite (of_int (sum_list (map (\<lambda>p. number_units (number_of (snd p))) bd))))"
proof -
  let ?vs = "map (\<lambda>p. number_of (snd p)) (own_properties bd)"
  have n: "snd p = Num (number_of (snd p))" if "p \<in> set bd" for p
  proof -
    from W that have "is_whole (number_of (snd p))" by (simp add: list_all_iff)
    then show ?thesis by (cases "snd p") (simp_all add: is_whole_def)
  qed
  have v: "Object_values bd = map Num ?vs"
    using n by (rule values_are_numbers)
  have w: "list_all is_whole ?vs"
    using W by (simp add: list_all_iff own_properties_set)
  have u: "sum_list (map number_units ?vs)
      = sum_list (map (\<lambda>p. number_units (number_of (snd p))) bd)"
    using own_properties_sum [of "\<lambda>p. number_units (number_of (snd p))" bd]
    by (simp add: comp_def)
  have ua: "sum_list (map (\<lambda>v. \<bar>number_units v\<bar>) ?vs)
      = sum_list (map (\<lambda>p. \<bar>number_units (number_of (snd p))\<bar>) bd)"
    using own_properties_sum [of "\<lambda>p. \<bar>number_units (number_of (snd p))\<bar>" bd]
    by (simp add: comp_def)
  have c: "\<bar>0\<bar> + sum_list (map (\<lambda>v. \<bar>number_units v\<bar>) ?vs) \<le> 2 ^ 53"
    unfolding ua using b by simp
  have "foldl (\<lambda>s v. js_add s v) (Finite (of_int 0)) ?vs
      = Finite (of_int (0 + sum_list (map number_units ?vs)))"
    using w c by (rule foldl_whole [where h = "\<lambda>s. s", OF refl])
  then have "foldl js_add (Finite 0) ?vs
      = Finite (of_int (sum_list (map (\<lambda>p. number_units (number_of (snd p))) bd)))"
    unfolding u by simp
  then show ?thesis
    by (simp only: sumValues_def v foldl_add_values)
qed

lemma category_sum_whole:
  assumes "wholeAmounts xs" and c: "\<not> inherited c"
  shows "map_of (foldl addCategory [] xs) c =
     (if filter (\<lambda>e. category e = c) xs = [] then None
      else Some (Num (Finite (of_int (sum_list (map units (filter (\<lambda>e. category e = c) xs)))))))"
proof -
  let ?ys = "filter (\<lambda>e. category e = c) xs"
  let ?vs = "map (\<lambda>e. parseFloat (amount e)) ?ys"
  have fm: "foldl (\<lambda>s e. js_add (or_zero s) (parseFloat (amount e))) s ys
      = foldl (\<lambda>s v. js_add (or_zero s) v) s (map (\<lambda>e. parseFloat (amount e)) ys)" for s ys
    by (induction ys arbitrary: s) simp_all
  have u: "map number_units ?vs = map units ?ys"
    "map (\<lambda>v. \<bar>number_units v\<bar>) ?vs = map (\<lambda>e. \<bar>units e\<bar>) ?ys"
    by (simp_all add: units_def)
  have w: "list_all is_whole ?vs"
    using assms(1) by (simp add: wholeAmounts_def list_all_iff)
  have "sum_list (map (\<lambda>e. \<bar>units e\<bar>) ?ys) \<le> sum_list (map (\<lambda>e. \<bar>units e\<bar>) xs)"
    by (rule sum_abs_filter_le)
  with assms(1) have b: "\<bar>0\<bar> + sum_list (map (\<lambda>v. \<bar>number_units v\<bar>) ?vs) \<le> 2 ^ 53"
    unfolding u by (simp add: wholeAmounts_def)
  have "foldl (\<lambda>s v. js_add (or_zero s) v) (Finite (of_int 0)) ?vs
      = Finite (of_int (0 + sum_list (map number_units ?vs)))"
    using w b by (rule foldl_whole [where h = or_zero, OF or_zero_whole])
  then show ?thesis
    unfolding u by (simp add: map_of_foldl_addCategory [OF c] foldl_js_plus fm)
qed

subsection \<open>The breakdown of amounts with cents\<close>

lemma addCategory_bound:
  assumes K: "- 1021 \<le> K" "K \<le> 1023"
    and W: "list_all (\<lambda>p. is_finite (number_of (snd p))) acc"
    and we: "is_finite (parseFloat (amount e))"
    and b: "sum_list (map (\<lambda>p. \<bar>number_value (number_of (snd p))\<bar>) acc) + \<bar>exact_amount e\<bar>
        \<le> pow2 K"
    and plain: "\<not> inherited (category e)"
  shows "list_all (\<lambda>p. is_finite (number_of (snd p))) (addCategory acc e)
    \<and> \<bar>sum_list (map (\<lambda>p. number_value (number_of (snd p))) (addCategory acc e))
         - (sum_list (map (\<lambda>p. number_value (number_of (snd p))) acc) + exact_amount e)\<bar>
        \<le> pow2 (K - 54)
    \<and> sum_list (map (\<lambda>p. \<bar>number_value (number_of (snd p))\<bar>) (addCategory acc e))
        \<le> sum_list (map (\<lambda>p. \<bar>number_value (number_of (snd p))\<bar>) acc) + \<bar>exact_amount e\<bar>
            + pow2 (K - 54)
    \<and> length (addCategory acc e) \<le> length acc + 1"
proof -
  define V where "V = sum_list (map (\<lambda>p. number_value (number_of (snd p))) acc)"
  define A where "A = sum_list (map (\<lambda>p. \<bar>number_value (number_of (snd p))\<bar>) acc)"
  define a where "a = exact_amount e"
  define ov where
    "ov = (case map_of acc (category e) of None \<Rightarrow> 0 | Some old \<Rightarrow> number_value (number_of old))"
  have pa: "parseFloat (amount e) = Finite a"
    using is_finite_eq [OF we] by (simp add: a_def exact_amount_def)
  have A0: "0 \<le> A"
    unfolding A_def by (rule sum_abs_nonneg)
  have old: "or_zero_reading (get_property acc (category e)) = Value (Num (Finite ov))
      \<and> \<bar>ov\<bar> \<le> A"
  proof (cases "map_of acc (category e)")
    case None
    with A0 show ?thesis
      by (simp add: ov_def get_property_plain [OF plain])
  next
    case (Some v)
    from W Some have "is_finite (number_of v)" by (rule lookup_all)
    from number_of_finite [OF this]
    have "or_zero_reading (Value v) = Value (Num (Finite (number_value (number_of v))))"
      using or_zero_Finite [of "number_value (number_of v)"] by (cases v) simp_all
    moreover have "\<bar>number_value (number_of v)\<bar> \<le> A"
      unfolding A_def by (rule lookup_le_total [OF Some, of "\<lambda>v. number_value (number_of v)"])
    ultimately show ?thesis
      using Some by (simp add: ov_def get_property_plain [OF plain])
  qed
  from old b have oaK: "\<bar>ov + a\<bar> \<le> pow2 K"
    unfolding A_def [symmetric] a_def [symmetric] by linarith
  obtain y where y: "round64 (ov + a) = Finite y" "\<bar>y - (ov + a)\<bar> \<le> pow2 (K - 54)"
    using round64_bound_abs [OF oaK K] by blast
  have ac: "addCategory acc e = AList.update (category e) (Num (Finite y)) acc"
    by (simp add: addCategory_def old pa y(1) set_property_plain [OF plain])
  have "sum_list (map (\<lambda>p. number_value (number_of (snd p))) (addCategory acc e))
      = V - ov + number_value (number_of (Num (Finite y)))"
    unfolding ac V_def ov_def by (rule update_total)
  then have s1: "sum_list (map (\<lambda>p. number_value (number_of (snd p))) (addCategory acc e))
      = V - ov + y"
    by (simp add: number_value_def)
  have "sum_list (map (\<lambda>p. \<bar>number_value (number_of (snd p))\<bar>) (addCategory acc e))
      = A - (case map_of acc (category e) of None \<Rightarrow> 0
             | Some old \<Rightarrow> \<bar>number_value (number_of old)\<bar>)
          + \<bar>number_value (number_of (Num (Finite y)))\<bar>"
    unfolding ac A_def by (rule update_total [where f = "\<lambda>v. \<bar>number_value (number_of v)\<bar>"])
  moreover have "(case map_of acc (category e) of None \<Rightarrow> 0
             | Some old \<Rightarrow> \<bar>number_value (number_of old)\<bar>) = \<bar>ov\<bar>"
    by (cases "map_of acc (category e)") (simp_all add: ov_def)
  ultimately have s2: "sum_list (map (\<lambda>p. \<bar>number_value (number_of (snd p))\<bar>) (addCategory acc e))
      = A - \<bar>ov\<bar> + \<bar>y\<bar>"
    by (simp add: number_value_def)
  have w: "list_all (\<lambda>p. is_finite (number_of (snd p))) (addCategory acc e)"
    unfolding ac using W by (rule update_all) (simp add: is_finite_def)
  have l: "length (addCategory acc e) \<le> length acc + 1"
    unfolding ac by (rule length_update_le)
  from s1 y(2) have "\<bar>sum_list (map (\<lambda>p. number_value (number_of (snd p))) (addCategory acc e))
      - (V + a)\<bar> \<le> pow2 (K - 54)"
    by linarith
  moreover from s2 y(2)
  have "sum_list (map (\<lambda>p. \<bar>number_value (number_of (snd p))\<bar>) (addCategory acc e))
      \<le> A + \<bar>a\<bar> + pow2 (K - 54)"
    by linarith
  ultimately show ?thesis
    using w l by (simp add: V_def A_def a_def)
qed

lemma foldl_addCategory_bound:
  assumes K: "- 1021 \<le> K" "K \<le> 1023"
  shows "list_all (\<lambda>p. is_finite (number_of (snd p))) acc
   \<Longrightarrow> list_all (\<lambda>e. is_finite (parseFloat (amount e))) es
   \<Longrightarrow> \<bar>sum_list (map (\<lambda>p. number_value (number_of (snd p))) acc) - s\<bar>
         \<le> of_nat j * pow2 (K - 54)
   \<Longrightarrow> sum_list (map (\<lambda>p. \<bar>number_value (number_of (snd p))\<bar>) acc)
         \<le> B + of_nat j * pow2 (K - 54)
   \<Longrightarrow> B + sum_list (map (\<lambda>e. \<bar>exact_amount e\<bar>) es) + of_nat (j + length es) * pow2 (K - 54)
         \<le> pow2 K
   \<Longrightarrow> plainCategories es
   \<Longrightarrow> list_all (\<lambda>p. is_finite (number_of (snd p))) (foldl addCategory acc es)
      \<and> \<bar>sum_list (map (\<lambda>p. number_value (number_of (snd p))) (foldl addCategory acc es))
           - (s + sum_list (map exact_amount es))\<bar> \<le> of_nat (j + length es) * pow2 (K - 54)
      \<and> sum_list (map (\<lambda>p. \<bar>number_value (number_of (snd p))\<bar>) (foldl addCategory acc es))
           \<le> B + sum_list (map (\<lambda>e. \<bar>exact_amount e\<bar>) es)
               + of_nat (j + length es) * pow2 (K - 54)
      \<and> length (foldl addCategory acc es) \<le> length acc + length es"
proof (induction es arbitrary: acc s j B)
  case Nil
  then show ?case by simp
next
  case (Cons e es)
  define eps where "eps = pow2 (K - 54)"
  define dj where "dj = of_nat j * eps"
  define dn where "dn = of_nat (length es) * eps"
  define V where "V = sum_list (map (\<lambda>p. number_value (number_of (snd p))) acc)"
  define A where "A = sum_list (map (\<lambda>p. \<bar>number_value (number_of (snd p))\<bar>) acc)"
  define V' where
    "V' = sum_list (map (\<lambda>p. number_value (number_of (snd p))) (addCategory acc e))"
  define A' where
    "A' = sum_list (map (\<lambda>p. \<bar>number_value (number_of (snd p))\<bar>) (addCategory acc e))"
  define a where "a = exact_amount e"
  define R where "R = sum_list (map (\<lambda>e. \<bar>exact_amount e\<bar>) es)"
  have eps: "0 < eps" by (simp add: eps_def pow2_pos)
  have dn: "0 \<le> dn" using eps by (simp add: dn_def)
  have R: "0 \<le> R" unfolding R_def by (rule sum_abs_nonneg)
  from Cons.prems(2) have we: "is_finite (parseFloat (amount e))"
    and wes: "list_all (\<lambda>e. is_finite (parseFloat (amount e))) es"
    by simp_all
  from Cons.prems(6) have plain: "\<not> inherited (category e)" and plains: "plainCategories es"
    by (simp_all add: plainCategories_def)
  have Vs: "\<bar>V - s\<bar> \<le> dj"
    using Cons.prems(3) by (simp add: V_def eps_def dj_def)
  have AB: "A \<le> B + dj"
    using Cons.prems(4) by (simp add: A_def eps_def dj_def)
  have b: "B + \<bar>a\<bar> + R + (dj + eps + dn) \<le> pow2 K"
    using Cons.prems(5) by (simp add: eps_def a_def R_def dj_def dn_def algebra_simps)
  from AB b R dn eps have "A + \<bar>a\<bar> \<le> pow2 K"
    by linarith
  then have st: "list_all (\<lambda>p. is_finite (number_of (snd p))) (addCategory acc e)
      \<and> \<bar>V' - (V + a)\<bar> \<le> eps
      \<and> A' \<le> A + \<bar>a\<bar> + eps
      \<and> length (addCategory acc e) \<le> length acc + 1"
    unfolding V_def V'_def A_def A'_def a_def eps_def
    by (intro addCategory_bound K Cons.prems(1) we plain)
  from st Vs have "\<bar>V' - (s + a)\<bar> \<le> dj + eps"
    by linarith
  then have Vs': "\<bar>V' - (s + a)\<bar> \<le> of_nat (j + 1) * pow2 (K - 54)"
    by (simp add: dj_def eps_def algebra_simps)
  from st AB have "A' \<le> (B + \<bar>a\<bar>) + (dj + eps)"
    by linarith
  then have AB': "A' \<le> (B + \<bar>a\<bar>) + of_nat (j + 1) * pow2 (K - 54)"
    by (simp add: dj_def eps_def algebra_simps)
  have b': "(B + \<bar>a\<bar>) + sum_list (map (\<lambda>e. \<bar>exact_amount e\<bar>) es)
      + of_nat ((j + 1) + length es) * pow2 (K - 54) \<le> pow2 K"
    using b by (simp add: eps_def R_def dj_def dn_def algebra_simps)
  from Cons.IH [OF conjunct1 [OF st] wes Vs' [unfolded V'_def] AB' [unfolded A'_def] b' plains] st
  show ?case
    by (simp add: a_def add.assoc)
qed

lemma sumValues_bounded:
  assumes K: "- 1021 \<le> K" "K \<le> 1023"
    and W: "list_all (\<lambda>p. is_finite (number_of (snd p))) bd"
    and b: "sum_list (map (\<lambda>p. \<bar>number_value (number_of (snd p))\<bar>) bd)
        + of_nat (length bd) * pow2 (K - 54) \<le> pow2 K"
  shows "\<exists>T. sumValues bd = Num (Finite T)
    \<and> \<bar>T - sum_list (map (\<lambda>p. number_value (number_of (snd p))) bd)\<bar>
        \<le> of_nat (length bd) * pow2 (K - 54)"
proof -
  let ?vs = "map (\<lambda>p. number_of (snd p)) (own_properties bd)"
  have n: "snd p = Num (number_of (snd p))" if "p \<in> set bd" for p
  proof -
    from W that have "is_finite (number_of (snd p))" by (simp add: list_all_iff)
    then show ?thesis by (cases "snd p") (simp_all add: is_finite_def)
  qed
  have v: "Object_values bd = map Num ?vs"
    using n by (rule values_are_numbers)
  have w: "list_all is_finite ?vs"
    using W by (simp add: list_all_iff own_properties_set)
  have u: "sum_list (map number_value ?vs)
      = sum_list (map (\<lambda>p. number_value (number_of (snd p))) bd)"
    using own_properties_sum [of "\<lambda>p. number_value (number_of (snd p))" bd]
    by (simp add: comp_def)
  have ua: "sum_list (map (\<lambda>v. \<bar>number_value v\<bar>) ?vs)
      = sum_list (map (\<lambda>p. \<bar>number_value (number_of (snd p))\<bar>) bd)"
    using own_properties_sum [of "\<lambda>p. \<bar>number_value (number_of (snd p))\<bar>" bd]
    by (simp add: comp_def)
  have l: "length ?vs = length bd"
    by (simp add: own_properties_length)
  have c: "\<bar>0\<bar> + sum_list (map (\<lambda>v. \<bar>number_value v\<bar>) ?vs)
      + of_nat (0 + length ?vs) * pow2 (K - 54) \<le> pow2 K"
    unfolding ua l using b by simp
  have "\<exists>t'. foldl (\<lambda>a v. js_add a v) (Finite 0) ?vs = Finite t'
      \<and> \<bar>t' - (0 + sum_list (map number_value ?vs))\<bar>
          \<le> of_nat (0 + length ?vs) * pow2 (K - 54)"
    using w _ c by (rule foldl_bound [where h = "\<lambda>a. a", OF refl K]) simp
  then obtain T where "foldl js_add (Finite 0) ?vs = Finite T"
    and "\<bar>T - sum_list (map (\<lambda>p. number_value (number_of (snd p))) bd)\<bar>
        \<le> of_nat (length bd) * pow2 (K - 54)"
    unfolding u l by auto
  then show ?thesis
    by (simp only: sumValues_def v foldl_add_values) simp
qed

lemma breakdown_close_to_expenses:
  assumes b: "boundedAmounts K xs" and f: "filter (\<lambda>e. type e = ''expense'') xs = xs"
    and plain: "plainCategories xs"
  shows "\<exists>T. sumValues (foldl addCategory [] xs) = Num (Finite T)
    \<and> close (of_nat (3 * length xs) * pow2 (K - 54)) (Finite T) (sumOfType ''expense'' xs)"
proof -
  define eps where "eps = pow2 (K - 54)"
  define S where "S = sum_list (map exact_amount xs)"
  define R where "R = sum_list (map (\<lambda>e. \<bar>exact_amount e\<bar>) xs)"
  define n where "n = length xs"
  define d where "d = of_nat n * eps"
  define bd where "bd = foldl addCategory [] xs"
  define V where "V = sum_list (map (\<lambda>p. number_value (number_of (snd p))) bd)"
  define A where "A = sum_list (map (\<lambda>p. \<bar>number_value (number_of (snd p))\<bar>) bd)"
  from b have K: "- 1021 \<le> K" "K \<le> 1023"
    and w: "list_all (\<lambda>e. is_finite (parseFloat (amount e))) xs"
    and s: "R + (d + d) \<le> pow2 K"
    by (simp_all add: boundedAmounts_def R_def n_def d_def eps_def pow2_double algebra_simps)
  have eps: "0 < eps" by (simp add: eps_def pow2_pos)
  have d0: "0 \<le> d" using eps by (simp add: d_def)
  have c: "0 + sum_list (map (\<lambda>e. \<bar>exact_amount e\<bar>) xs) + of_nat (0 + length xs) * pow2 (K - 54)
      \<le> pow2 K"
    using s d0 by (simp add: R_def n_def d_def eps_def)
  have i: "\<bar>sum_list (map (\<lambda>p. number_value (number_of (snd p))) ([] :: object)) - 0\<bar>
      \<le> of_nat 0 * pow2 (K - 54)"
    "sum_list (map (\<lambda>p. \<bar>number_value (number_of (snd p))\<bar>) ([] :: object))
      \<le> 0 + of_nat 0 * pow2 (K - 54)"
    by simp_all
  have st: "list_all (\<lambda>p. is_finite (number_of (snd p))) (foldl addCategory [] xs)
      \<and> \<bar>sum_list (map (\<lambda>p. number_value (number_of (snd p))) (foldl addCategory [] xs))
           - (0 + sum_list (map exact_amount xs))\<bar> \<le> of_nat (0 + length xs) * pow2 (K - 54)
      \<and> sum_list (map (\<lambda>p. \<bar>number_value (number_of (snd p))\<bar>) (foldl addCategory [] xs))
           \<le> 0 + sum_list (map (\<lambda>e. \<bar>exact_amount e\<bar>) xs)
               + of_nat (0 + length xs) * pow2 (K - 54)
      \<and> length (foldl addCategory [] xs) \<le> length ([] :: object) + length xs"
    using _ w i c plain by (rule foldl_addCategory_bound [OF K]) simp
  then have W: "list_all (\<lambda>p. is_finite (number_of (snd p))) bd"
    and VS: "\<bar>V - S\<bar> \<le> d" and AR: "A \<le> R + d" and len: "length bd \<le> n"
    by (simp_all add: bd_def V_def A_def S_def R_def n_def d_def eps_def)
  from len have "(of_nat (length bd) :: rat) \<le> of_nat n"
    by (simp only: of_nat_le_iff)
  then have le: "of_nat (length bd) * eps \<le> d"
    unfolding d_def using eps by (intro mult_right_mono) simp_all
  from AR le s have "A + of_nat (length bd) * eps \<le> pow2 K"
    by linarith
  then obtain T where T: "sumValues bd = Num (Finite T)" "\<bar>T - V\<bar> \<le> of_nat (length bd) * eps"
    using sumValues_bounded [OF K W] unfolding V_def A_def eps_def by blast
  obtain M where M: "sumOfType ''expense'' xs = Finite M" "\<bar>M - S\<bar> \<le> d"
    using sumOfType_bounded [OF b, of "''expense''"] unfolding f S_def n_def d_def eps_def by blast
  from T(2) le have "\<bar>T - V\<bar> \<le> d" by simp
  with VS M(2) have "\<bar>T - M\<bar> \<le> d + d + d"
    by linarith
  then have "\<bar>T - M\<bar> \<le> of_nat (3 * n) * eps"
    by (simp add: d_def algebra_simps)
  then show ?thesis
    by (simp add: close_def T(1) [unfolded bd_def] M(1) n_def eps_def)
qed

lemma category_bounded:
  assumes b: "boundedAmounts K xs" and ne: "filter (\<lambda>e. category e = c) xs \<noteq> []"
    and c: "\<not> inherited c"
  shows "\<exists>T. map_of (foldl addCategory [] xs) c = Some (Num (Finite T))
      \<and> \<bar>T - sum_list (map exact_amount (filter (\<lambda>e. category e = c) xs))\<bar>
          \<le> of_nat (length (filter (\<lambda>e. category e = c) xs)) * pow2 (K - 54)"
  using fold_bounded [OF bounded_filter [OF b], of or_zero "\<lambda>e. category e = c"] ne
  by (auto simp: map_of_foldl_addCategory [OF c] foldl_js_plus or_zero_Finite)

lemma close_category:
  assumes p: "mset xs' = mset xs" and b: "boundedAmounts K xs" and c: "\<not> inherited c"
  shows "rel_option (\<lambda>v w. close (of_nat (length xs) * pow2 (K - 53)) (number_of v) (number_of w))
           (map_of (foldl addCategory [] xs') c) (map_of (foldl addCategory [] xs) c)"
proof (cases "filter (\<lambda>e. category e = c) xs = []")
  case True
  with filter_empty_perm [OF p, of "\<lambda>e. category e = c"] show ?thesis
    by (simp add: map_of_foldl_addCategory [OF c])
next
  case False
  then have ne': "filter (\<lambda>e. category e = c) xs' \<noteq> []"
    using filter_empty_perm [OF p, of "\<lambda>e. category e = c"] by simp
  have b': "boundedAmounts K xs'"
    using bounded_perm [OF p, of K] b by simp
  define n where "n = length (filter (\<lambda>e. category e = c) xs)"
  have l: "length (filter (\<lambda>e. category e = c) xs') = n"
    using mset_eq_length [of "filter (\<lambda>e. category e = c) xs'" "filter (\<lambda>e. category e = c) xs"] p
    by (simp add: n_def)
  obtain T where T: "map_of (foldl addCategory [] xs) c = Some (Num (Finite T))"
      "\<bar>T - sum_list (map exact_amount (filter (\<lambda>e. category e = c) xs))\<bar> \<le> of_nat n * pow2 (K - 54)"
    using category_bounded [OF b False c] unfolding n_def by blast
  obtain T' where T': "map_of (foldl addCategory [] xs') c = Some (Num (Finite T'))"
      "\<bar>T' - sum_list (map exact_amount (filter (\<lambda>e. category e = c) xs))\<bar> \<le> of_nat n * pow2 (K - 54)"
    using category_bounded [OF b' ne' c] sum_perm [OF p, of exact_amount "\<lambda>e. category e = c"] l
    by auto
  have "(of_nat n :: rat) \<le> of_nat (length xs)"
    unfolding n_def by (simp only: of_nat_le_iff) simp
  then have "of_nat n * pow2 (K - 53) \<le> of_nat (length xs) * pow2 (K - 53)"
    using pow2_pos [of "K - 53"] by (intro mult_right_mono) simp_all
  moreover from T(2) T'(2) have "\<bar>T' - T\<bar> \<le> of_nat n * pow2 (K - 53)"
    by (simp add: pow2_double abs_le_iff algebra_simps)
  ultimately have "\<bar>T' - T\<bar> \<le> of_nat (length xs) * pow2 (K - 53)"
    by simp
  then show ?thesis
    by (simp add: T(1) T'(1) close_def)
qed

subsection \<open>The concrete ledgers\<close>

lemma calculations_entries:
  "monthlyEntries (calculations parseISO es m)
     = filter (\<lambda>entry. isSameMonth (parseISO (date entry)) (parseISO (m @ ''-01''))) es"
  by (simp add: calculations_def Let_def)

lemma calculations_fields:
  "totalIncome (calculations parseISO es m) = sumOfType ''income'' es"
  "totalExpenses (calculations parseISO es m) = sumOfType ''expense'' es"
  "balance (calculations parseISO es m)
     = js_sub (totalIncome (calculations parseISO es m)) (totalExpenses (calculations parseISO es m))"
  "monthlyIncome (calculations parseISO es m)
     = sumOfType ''income'' (monthlyEntries (calculations parseISO es m))"
  "monthlyExpenses (calculations parseISO es m)
     = sumOfType ''expense'' (monthlyEntries (calculations parseISO es m))"
  "categoryBreakdown (calculations parseISO es m)
     = foldl addCategory []
         (filter (\<lambda>entry. type entry = ''expense'') (monthlyEntries (calculations parseISO es m)))"
  by (simp_all add: calculations_def Let_def)

lemma parse_amounts:
  "parseFloat ''0.10'' = Finite (3602879701896397 / 36028797018963968)"
  "parseFloat ''0.20'' = Finite (3602879701896397 / 18014398509481984)"
  "parseFloat ''0.30'' = Finite (5404319552844595 / 18014398509481984)"
  "parseFloat ''0.40'' = Finite (3602879701896397 / 9007199254740992)"
  "parseFloat ''1.00'' = Finite 1"
  "parseFloat ''5.00'' = Finite 5"
  "parseFloat ''7.00'' = Finite 7"
  "parseFloat ''-30.00'' = Finite (- 30)"
  "parseFloat ''50.00'' = Finite 50"
  "parseFloat ''200.00'' = Finite 200"
  "parseFloat ''1000.00'' = Finite 1000"
  "parseFloat ''9007199254740992.00'' = Finite 9007199254740992"
  "parseFloat ''9007199254740994.00'' = Finite 9007199254740994"
  by (simp_all add: parseFloat_eval round64_eval)

lemma parse_dates:
  "parseISO_date ''2024-01-15'' = Some \<lparr>year = 2024, month = 0, day = 15\<rparr>"
  "parseISO_date ''2024-01-01'' = Some \<lparr>year = 2024, month = 0, day = 1\<rparr>"
  "parseISO_date ''2024-01-05'' = Some \<lparr>year = 2024, month = 0, day = 5\<rparr>"
  "parseISO_date ''2024-01-10'' = Some \<lparr>year = 2024, month = 0, day = 10\<rparr>"
  "parseISO_date ''2024-01-12'' = Some \<lparr>year = 2024, month = 0, day = 12\<rparr>"
  "parseISO_date ''2024-01-20'' = Some \<lparr>year = 2024, month = 0, day = 20\<rparr>"
  "parseISO_date ''2024-02-01'' = Some \<lparr>year = 2024, month = 1, day = 1\<rparr>"
  by (simp_all add: parseISO_date_def is_digit_def digits_val_def digit_val_def daysInMonth_def
      leapYear_def)

lemmas month_eval = calculations_entries isSameMonth_def parse_dates

lemmas sum_eval = sumOfType_def parse_amounts round64_eval

lemmas breakdown_eval = addCategory_def set_property_def get_property_def
  Object_prototype_methods_def or_zero_def parse_amounts round64_eval

lemmas sumValues_eval = sumValues_def Object_values_def own_properties_def is_array_index_def
  is_digit_def round64_eval

lemma january_month:
  "monthlyEntries (calculations parseISO_date (january t a c # es) ''2024-01'')
     = january t a c # monthlyEntries (calculations parseISO_date es ''2024-01'')"
  "monthlyEntries (calculations parseISO_date [] ''2024-01'') = []"
  by (simp_all add: month_eval january_def)

text \<open>The scenario of the specification.\<close>

lemma scenario_month:
  "monthlyEntries (calculations parseISO_date scenario ''2024-01'') = [scenario ! 0, scenario ! 1]"
  by (simp add: month_eval scenario_def)

lemma scenario_totals:
  "totalIncome (calculations parseISO_date scenario ''2024-01'') = Finite 1000"
  "totalExpenses (calculations parseISO_date scenario ''2024-01'') = Finite 250"
  "balance (calculations parseISO_date scenario ''2024-01'') = Finite 750"
  "monthlyIncome (calculations parseISO_date scenario ''2024-01'') = Finite 1000"
  "monthlyExpenses (calculations parseISO_date scenario ''2024-01'') = Finite 200"
  "categoryBreakdown (calculations parseISO_date scenario ''2024-01'')
     = [(''Food'', Num (Finite 200))]"
proof -
  show i: "totalIncome (calculations parseISO_date scenario ''2024-01'') = Finite 1000"
    by (simp add: calculations_fields(1) sum_eval scenario_def)
  show e: "totalExpenses (calculations parseISO_date scenario ''2024-01'') = Finite 250"
    by (simp add: calculations_fields(2) sum_eval scenario_def)
  show "balance (calculations parseISO_date scenario ''2024-01'') = Finite 750"
    by (simp add: calculations_fields(3) i e js_sub_def round64_eval)
  show "monthlyIncome (calculations parseISO_date scenario ''2024-01'') = Finite 1000"
    unfolding calculations_fields(4) scenario_month by (simp add: sum_eval scenario_def)
  show "monthlyExpenses (calculations parseISO_date scenario ''2024-01'') = Finite 200"
    unfolding calculations_fields(5) scenario_month by (simp add: sum_eval scenario_def)
  show "categoryBreakdown (calculations parseISO_date scenario ''2024-01'')
     = [(''Food'', Num (Finite 200))]"
    unfolding calculations_fields(6) scenario_month by (simp add: breakdown_eval scenario_def)
qed

text \<open>The household ledger, in its order and reversed.\<close>

lemma household_whole: "wholeAmounts household"
  by (simp add: wholeAmounts_def household_def units_def is_whole_def number_units_def
      parse_amounts)

lemma household_month:
  "monthlyEntries (calculations parseISO_date household ''2024-01'')
     = [household ! 0, household ! 1, household ! 2, household ! 3]"
  "monthlyEntries (calculations parseISO_date (rev household) ''2024-01'')
     = [household ! 3, household ! 2, household ! 1, household ! 0]"
  by (simp_all add: month_eval household_def)

lemma household_totals:
  "totalIncome (calculations parseISO_date household ''2024-01'') = Finite 1000"
  "totalExpenses (calculations parseISO_date household ''2024-01'') = Finite 270"
  "balance (calculations parseISO_date household ''2024-01'') = Finite 730"
  "monthlyIncome (calculations parseISO_date household ''2024-01'') = Finite 1000"
  "monthlyExpenses (calculations parseISO_date household ''2024-01'') = Finite 220"
  "categoryBreakdown (calculations parseISO_date household ''2024-01'')
     = [(''Food'', Num (Finite 170)), (''Transport'', Num (Finite 50))]"
proof -
  show i: "totalIncome (calculations parseISO_date household ''2024-01'') = Finite 1000"
    by (simp add: calculations_fields(1) sum_eval household_def)
  show e: "totalExpenses (calculations parseISO_date household ''2024-01'') = Finite 270"
    by (simp add: calculations_fields(2) sum_eval household_def)
  show "balance (calculations parseISO_date household ''2024-01'') = Finite 730"
    by (simp add: calculations_fields(3) i e js_sub_def round64_eval)
  show "monthlyIncome (calculations parseISO_date household ''2024-01'') = Finite 1000"
    unfolding calculations_fields(4) household_month by (simp add: sum_eval household_def)
  show "monthlyExpenses (calculations parseISO_date household ''2024-01'') = Finite 220"
    unfolding calculations_fields(5) household_month by (simp add: sum_eval household_def)
  show "categoryBreakdown (calculations parseISO_date household ''2024-01'')
     = [(''Food'', Num (Finite 170)), (''Transport'', Num (Finite 50))]"
    unfolding calculations_fields(6) household_month by (simp add: breakdown_eval household_def)
qed

lemma household_reversed_totals:
  "totalIncome (calculations parseISO_date (rev household) ''2024-01'') = Finite 1000"
  "totalExpenses (calculations parseISO_date (rev household) ''2024-01'') = Finite 270"
  "balance (calculations parseISO_date (rev household) ''2024-01'') = Finite 730"
  "monthlyIncome (calculations parseISO_date (rev household) ''2024-01'') = Finite 1000"
  "monthlyExpenses (calculations parseISO_date (rev household) ''2024-01'') = Finite 220"
  "categoryBreakdown (calculations parseISO_date (rev household) ''2024-01'')
     = [(''Food'', Num (Finite 170)), (''Transport'', Num (Finite 50))]"
proof -
  show i: "totalIncome (calculations parseISO_date (rev household) ''2024-01'') = Finite 1000"
    by (simp add: calculations_fields(1) sum_eval household_def)
  show e: "totalExpenses (calculations parseISO_date (rev household) ''2024-01'') = Finite 270"
    by (simp add: calculations_fields(2) sum_eval household_def)
  show "balance (calculations parseISO_date (rev household) ''2024-01'') = Finite 730"
    by (simp add: calculations_fields(3) i e js_sub_def round64_eval)
  show "monthlyIncome (calculations parseISO_date (rev household) ''2024-01'') = Finite 1000"
    unfolding calculations_fields(4) household_month by (simp add: sum_eval household_def)
  show "monthlyExpenses (calculations parseISO_date (rev household) ''2024-01'') = Finite 220"
    unfolding calculations_fields(5) household_month by (simp add: sum_eval household_def)
  show "categoryBreakdown (calculations parseISO_date (rev household) ''2024-01'')
     = [(''Food'', Num (Finite 170)), (''Transport'', Num (Finite 50))]"
    unfolding calculations_fields(6) household_month by (simp add: breakdown_eval household_def)
qed

lemma household_sumValues:
  "sumValues [(''Food'', Num (Finite 170)), (''Transport'', Num (Finite 50))] = Num (Finite 220)"
  by (simp add: sumValues_eval)

text \<open>The ledger with cents, in its order and reversed.\<close>

lemma snacks_bounded: "boundedAmounts 1 snacks"
  by (simp add: boundedAmounts_def snacks_def january_def exact_amount_def is_finite_def
      number_value_def parse_amounts pow2_def)

lemma snacks_month:
  "monthlyEntries (calculations parseISO_date snacks ''2024-01'') = snacks"
  "monthlyEntries (calculations parseISO_date (rev snacks) ''2024-01'') = rev snacks"
  by (simp_all add: snacks_def january_month)

lemma snacks_totals:
  "totalIncome (calculations parseISO_date snacks ''2024-01'')
     = Finite (1351079888211149 / 2251799813685248)"
  "totalExpenses (calculations parseISO_date snacks ''2024-01'')
     = Finite (6305039478318695 / 9007199254740992)"
  "balance (calculations parseISO_date snacks ''2024-01'')
     = Finite (- (900719925474099 / 9007199254740992))"
  "monthlyIncome (calculations parseISO_date snacks ''2024-01'')
     = Finite (1351079888211149 / 2251799813685248)"
  "monthlyExpenses (calculations parseISO_date snacks ''2024-01'')
     = Finite (6305039478318695 / 9007199254740992)"
  "categoryBreakdown (calculations parseISO_date snacks ''2024-01'')
     = [(''Food'', Num (Finite (1 / 2))),
        (''Transport'', Num (Finite (3602879701896397 / 18014398509481984)))]"
proof -
  have i: "sumOfType ''income'' snacks = Finite (1351079888211149 / 2251799813685248)"
    by (simp add: sum_eval snacks_def january_def)
  have e: "sumOfType ''expense'' snacks = Finite (6305039478318695 / 9007199254740992)"
    by (simp add: sum_eval snacks_def january_def)
  show "totalIncome (calculations parseISO_date snacks ''2024-01'')
     = Finite (1351079888211149 / 2251799813685248)"
    by (simp add: calculations_fields(1) i)
  show "totalExpenses (calculations parseISO_date snacks ''2024-01'')
     = Finite (6305039478318695 / 9007199254740992)"
    by (simp add: calculations_fields(2) e)
  show "balance (calculations parseISO_date snacks ''2024-01'')
     = Finite (- (900719925474099 / 9007199254740992))"
    by (simp add: calculations_fields(1,2,3) i e js_sub_def round64_eval)
  show "monthlyIncome (calculations parseISO_date snacks ''2024-01'')
     = Finite (1351079888211149 / 2251799813685248)"
    by (simp add: calculations_fields(4) snacks_month i)
  show "monthlyExpenses (calculations parseISO_date snacks ''2024-01'')
     = Finite (6305039478318695 / 9007199254740992)"
    by (simp add: calculations_fields(5) snacks_month e)
  show "categoryBreakdown (calculations parseISO_date snacks ''2024-01'')
     = [(''Food'', Num (Finite (1 / 2))),
        (''Transport'', Num (Finite (3602879701896397 / 18014398509481984)))]"
    unfolding calculations_fields(6) snacks_month by (simp add: breakdown_eval snacks_def january_def)
qed

lemma snacks_reversed_totals:
  "totalIncome (calculations parseISO_date (rev snacks) ''2024-01'')
     = Finite (5404319552844595 / 9007199254740992)"
  "totalExpenses (calculations parseISO_date (rev snacks) ''2024-01'')
     = Finite (6305039478318695 / 9007199254740992)"
  "balance (calculations parseISO_date (rev snacks) ''2024-01'')
     = Finite (- (225179981368525 / 2251799813685248))"
  "monthlyIncome (calculations parseISO_date (rev snacks) ''2024-01'')
     = Finite (5404319552844595 / 9007199254740992)"
  "monthlyExpenses (calculations parseISO_date (rev snacks) ''2024-01'')
     = Finite (6305039478318695 / 9007199254740992)"
  "categoryBreakdown (calculations parseISO_date (rev snacks) ''2024-01'')
     = [(''Food'', Num (Finite (1 / 2))),
        (''Transport'', Num (Finite (3602879701896397 / 18014398509481984)))]"
proof -
  have i: "sumOfType ''income'' (rev snacks) = Finite (5404319552844595 / 9007199254740992)"
    by (simp add: sum_eval snacks_def january_def)
  have e: "sumOfType ''expense'' (rev snacks) = Finite (6305039478318695 / 9007199254740992)"
    by (simp add: sum_eval snacks_def january_def)
  show "totalIncome (calculations parseISO_date (rev snacks) ''2024-01'')
     = Finite (5404319552844595 / 9007199254740992)"
    by (simp add: calculations_fields(1) i)
  show "totalExpenses (calculations parseISO_date (rev snacks) ''2024-01'')
     = Finite (6305039478318695 / 9007199254740992)"
    by (simp add: calculations_fields(2) e)
  show "balance (calculations parseISO_date (rev snacks) ''2024-01'')
     = Finite (- (225179981368525 / 2251799813685248))"
    by (simp add: calculations_fields(1,2,3) i e js_sub_def round64_eval)
  show "monthlyIncome (calculations parseISO_date (rev snacks) ''2024-01'')
     = Finite (5404319552844595 / 9007199254740992)"
    by (simp add: calculations_fields(4) snacks_month i)
  show "monthlyExpenses (calculations parseISO_date (rev snacks) ''2024-01'')
     = Finite (6305039478318695 / 9007199254740992)"
    by (simp add: calculations_fields(5) snacks_month e)
  show "categoryBreakdown (calculations parseISO_date (rev snacks) ''2024-01'')
     = [(''Food'', Num (Finite (1 / 2))),
        (''Transport'', Num (Finite (3602879701896397 / 18014398509481984)))]"
    unfolding calculations_fields(6) snacks_month by (simp add: breakdown_eval snacks_def january_def)
qed

lemma snacks_sumValues:
  "sumValues [(''Food'', Num (Finite (1 / 2))),
        (''Transport'', Num (Finite (3602879701896397 / 18014398509481984)))]
     = Num (Finite (3152519739159347 / 4503599627370496))"
  by (simp add: sumValues_eval)

lemma Number_toString_small:
  "Number_toString (Finite 5) = ''5''" "Number_toString (Finite 7) = ''7''"
  "Number_toString (Finite 12) = ''12''"
  by (simp_all add: Number_toString_def toString_positive_def decimal_exponent_def
      toString_pick_def toString_cands_def pow10_def round64_eval decimal_eval upt_conv_Cons)

subsection \<open>The balance\<close>

text \<open>
  C3. The balance is the exact difference of the sum of the income amounts and the sum
  of the expense amounts of the whole ledger, and the two totals are these sums, when
  the amounts are whole numbers whose absolute values add up to at most \<open>2 ^ 53\<close>.
  When the amounts are finite and the sum of their absolute values stays below
  \<open>2 ^ K\<close>, the totals are finite Numbers within \<open>n * 2 ^ (K - 54)\<close> of the sums of
  the \<open>n\<close> amounts added, and the balance is within \<open>2 ^ (K - 54)\<close> of the
  difference of the two totals. (The balance is not exact in general, see the
  counterexample.)
\<close>

theorem balance_is_income_minus_expenses:
  "(wholeAmounts es \<longrightarrow>
      totalIncome (calculations parseISO es m)
        = Finite (of_int (sum_list (map units (filter (\<lambda>e. type e = ''income'') es))))
      \<and> totalExpenses (calculations parseISO es m)
        = Finite (of_int (sum_list (map units (filter (\<lambda>e. type e = ''expense'') es))))
      \<and> balance (calculations parseISO es m)
        = Finite (of_int (sum_list (map units (filter (\<lambda>e. type e = ''income'') es))
                          - sum_list (map units (filter (\<lambda>e. type e = ''expense'') es)))))
   \<and> (boundedAmounts K es \<longrightarrow>
      (\<exists>I E B. totalIncome (calculations parseISO es m) = Finite I
         \<and> totalExpenses (calculations parseISO es m) = Finite E
         \<and> balance (calculations parseISO es m) = Finite B
         \<and> \<bar>I - sum_list (map exact_amount (filter (\<lambda>e. type e = ''income'') es))\<bar>
             \<le> of_nat (length (filter (\<lambda>e. type e = ''income'') es)) * pow2 (K - 54)
         \<and> \<bar>E - sum_list (map exact_amount (filter (\<lambda>e. type e = ''expense'') es))\<bar>
             \<le> of_nat (length (filter (\<lambda>e. type e = ''expense'') es)) * pow2 (K - 54)
         \<and> \<bar>B - (I - E)\<bar> \<le> pow2 (K - 54)))"
proof -
  have A: "totalIncome (calculations parseISO es m)
        = Finite (of_int (sum_list (map units (filter (\<lambda>e. type e = ''income'') es))))
      \<and> totalExpenses (calculations parseISO es m)
        = Finite (of_int (sum_list (map units (filter (\<lambda>e. type e = ''expense'') es))))
      \<and> balance (calculations parseISO es m)
        = Finite (of_int (sum_list (map units (filter (\<lambda>e. type e = ''income'') es))
                          - sum_list (map units (filter (\<lambda>e. type e = ''expense'') es))))"
    if w: "wholeAmounts es"
    using balance_whole [OF w] sumOfType_whole [OF w]
    by (simp add: calculations_fields)
  have B: "\<exists>I E B. totalIncome (calculations parseISO es m) = Finite I
         \<and> totalExpenses (calculations parseISO es m) = Finite E
         \<and> balance (calculations parseISO es m) = Finite B
         \<and> \<bar>I - sum_list (map exact_amount (filter (\<lambda>e. type e = ''income'') es))\<bar>
             \<le> of_nat (length (filter (\<lambda>e. type e = ''income'') es)) * pow2 (K - 54)
         \<and> \<bar>E - sum_list (map exact_amount (filter (\<lambda>e. type e = ''expense'') es))\<bar>
             \<le> of_nat (length (filter (\<lambda>e. type e = ''expense'') es)) * pow2 (K - 54)
         \<and> \<bar>B - (I - E)\<bar> \<le> pow2 (K - 54)"
    if b: "boundedAmounts K es"
  proof -
    obtain I E y where a: "sumOfType ''income'' es = Finite I" "sumOfType ''expense'' es = Finite E"
        "js_sub (sumOfType ''income'' es) (sumOfType ''expense'' es) = Finite y"
        "\<bar>y - (I - E)\<bar> \<le> pow2 (K - 54)"
      using balance_bounded [OF b] by blast
    have "\<bar>I - sum_list (map exact_amount (filter (\<lambda>e. type e = ''income'') es))\<bar>
        \<le> of_nat (length (filter (\<lambda>e. type e = ''income'') es)) * pow2 (K - 54)"
      using sumOfType_bounded [OF b, of "''income''"] a(1) by auto
    moreover have "\<bar>E - sum_list (map exact_amount (filter (\<lambda>e. type e = ''expense'') es))\<bar>
        \<le> of_nat (length (filter (\<lambda>e. type e = ''expense'') es)) * pow2 (K - 54)"
      using sumOfType_bounded [OF b, of "''expense''"] a(2) by auto
    ultimately show ?thesis
      using a by (simp add: calculations_fields)
  qed
  from A B show ?thesis by blast
qed

theorem balance_is_income_minus_expenses_witness:
  "wholeAmounts household
   \<and> totalIncome (calculations parseISO_date household ''2024-01'') = Finite 1000
   \<and> totalExpenses (calculations parseISO_date household ''2024-01'') = Finite 270
   \<and> balance (calculations parseISO_date household ''2024-01'') = Finite (1000 - 270)
   \<and> boundedAmounts 1 snacks
   \<and> totalIncome (calculations parseISO_date snacks ''2024-01'')
       = Finite (1351079888211149 / 2251799813685248)
   \<and> totalExpenses (calculations parseISO_date snacks ''2024-01'')
       = Finite (6305039478318695 / 9007199254740992)
   \<and> balance (calculations parseISO_date snacks ''2024-01'')
       = Finite (- (900719925474099 / 9007199254740992))
   \<and> \<bar>- (900719925474099 / 9007199254740992)
        - (1351079888211149 / 2251799813685248 - 6305039478318695 / 9007199254740992)\<bar>
       \<le> pow2 (1 - 54)"
  using balance_is_income_minus_expenses
      [where es = household and K = 1 and parseISO = parseISO_date and m = "''2024-01''"]
    balance_is_income_minus_expenses
      [where es = snacks and K = 1 and parseISO = parseISO_date and m = "''2024-01''"]
    household_whole snacks_bounded
  by (simp add: household_totals snacks_totals pow2_def)

text \<open>
  An income of 9007199254740994.00 and an expense of 1.00: the difference
  9007199254740993 is not a Number, and the balance is 9007199254740992.
\<close>

theorem balance_drift_counterexample:
  "totalIncome (calculations parseISO_date
       [january ''income'' ''9007199254740994.00'' ''Salary'',
        january ''expense'' ''1.00'' ''Food''] ''2024-01'') = Finite 9007199254740994
   \<and> totalExpenses (calculations parseISO_date
       [january ''income'' ''9007199254740994.00'' ''Salary'',
        january ''expense'' ''1.00'' ''Food''] ''2024-01'') = Finite 1
   \<and> balance (calculations parseISO_date
       [january ''income'' ''9007199254740994.00'' ''Salary'',
        january ''expense'' ''1.00'' ''Food''] ''2024-01'') \<noteq> Finite (9007199254740994 - 1)
   \<and> toFixed2 (balance (calculations parseISO_date
       [january ''income'' ''9007199254740994.00'' ''Salary'',
        january ''expense'' ''1.00'' ''Food''] ''2024-01'')) = ''9007199254740992.00''"
proof -
  have i: "totalIncome (calculations parseISO_date
       [january ''income'' ''9007199254740994.00'' ''Salary'',
        january ''expense'' ''1.00'' ''Food''] ''2024-01'') = Finite 9007199254740994"
    by (simp add: calculations_fields(1) sum_eval january_def)
  have e: "totalExpenses (calculations parseISO_date
       [january ''income'' ''9007199254740994.00'' ''Salary'',
        january ''expense'' ''1.00'' ''Food''] ''2024-01'') = Finite 1"
    by (simp add: calculations_fields(2) sum_eval january_def)
  have b: "balance (calculations parseISO_date
       [january ''income'' ''9007199254740994.00'' ''Salary'',
        january ''expense'' ''1.00'' ''Food''] ''2024-01'') = Finite 9007199254740992"
    unfolding calculations_fields(3) i e by (simp add: js_sub_def round64_eval)
  have t: "toFixed2 (Finite 9007199254740992) = ''9007199254740992.00''"
    by (simp add: toFixed2_eval)
  show ?thesis
    unfolding i e b t by simp
qed

subsection \<open>The category breakdown and the monthly expenses\<close>

text \<open>
  C1. When no expense of the month has a category that names a property of
  \<open>Object.prototype\<close>: the values of the category breakdown are Numbers and add up to
  the monthly expense total exactly if the expense amounts of the month are whole
  numbers whose absolute values add up to at most \<open>2 ^ 53\<close>; they add up to a Number
  within \<open>3 * n * 2 ^ (K - 54)\<close> of the monthly expense total if the \<open>n\<close> expense
  amounts of the month are finite and the sum of their absolute values stays below
  \<open>2 ^ K\<close>. (The two sides are rounded differently and can differ, see the
  counterexample.)
\<close>

theorem breakdown_sums_to_monthly_expenses:
  assumes "plainCategories (filter (\<lambda>e. type e = ''expense'')
      (monthlyEntries (calculations parseISO es m)))"
  shows "(wholeAmounts (filter (\<lambda>e. type e = ''expense'')
              (monthlyEntries (calculations parseISO es m))) \<longrightarrow>
          sumValues (categoryBreakdown (calculations parseISO es m))
            = Num (monthlyExpenses (calculations parseISO es m)))
    \<and> (boundedAmounts K (filter (\<lambda>e. type e = ''expense'')
              (monthlyEntries (calculations parseISO es m))) \<longrightarrow>
          (\<exists>T. sumValues (categoryBreakdown (calculations parseISO es m)) = Num (Finite T)
             \<and> close (of_nat (3 * length (filter (\<lambda>e. type e = ''expense'')
                         (monthlyEntries (calculations parseISO es m)))) * pow2 (K - 54))
                 (Finite T) (monthlyExpenses (calculations parseISO es m))))"
proof -
  define xs where
    "xs = filter (\<lambda>e. type e = ''expense'') (monthlyEntries (calculations parseISO es m))"
  have plain: "plainCategories xs"
    using assms by (simp add: xs_def)
  have bd: "categoryBreakdown (calculations parseISO es m) = foldl addCategory [] xs"
    by (simp add: calculations_fields xs_def)
  have me: "monthlyExpenses (calculations parseISO es m) = sumOfType ''expense'' xs"
    by (simp add: calculations_fields xs_def sumOfType_def)
  have f: "filter (\<lambda>e. type e = ''expense'') xs = xs"
    by (simp add: xs_def)
  have A: "sumValues (foldl addCategory [] xs) = Num (sumOfType ''expense'' xs)"
    if w: "wholeAmounts xs"
  proof -
    from w have a: "list_all (\<lambda>e. is_whole (parseFloat (amount e))) xs"
      and b: "sum_list (map (\<lambda>e. \<bar>units e\<bar>) xs) \<le> 2 ^ 53"
      by (simp_all add: wholeAmounts_def)
    have st: "list_all (\<lambda>p. is_whole (number_of (snd p))) (foldl addCategory [] xs)
        \<and> sum_list (map (\<lambda>p. number_units (number_of (snd p))) (foldl addCategory [] xs))
            = sum_list (map units xs)
        \<and> sum_list (map (\<lambda>p. \<bar>number_units (number_of (snd p))\<bar>) (foldl addCategory [] xs))
            \<le> sum_list (map (\<lambda>e. \<bar>units e\<bar>) xs)"
      using foldl_addCategory_whole [of "[]" xs] a b plain by simp
    then have "sumValues (foldl addCategory [] xs) = Num (Finite (of_int (sum_list (map units xs))))"
      using b by (simp add: sumValues_whole)
    moreover have "sumOfType ''expense'' xs = Finite (of_int (sum_list (map units xs)))"
      using sumOfType_whole [OF w, of "''expense''"] by (simp add: f)
    ultimately show ?thesis
      by simp
  qed
  have B: "\<exists>T. sumValues (foldl addCategory [] xs) = Num (Finite T)
      \<and> close (of_nat (3 * length xs) * pow2 (K - 54)) (Finite T) (sumOfType ''expense'' xs)"
    if b: "boundedAmounts K xs"
    using b f plain by (rule breakdown_close_to_expenses)
  from A B show ?thesis
    unfolding bd me xs_def [symmetric] by blast
qed

theorem breakdown_sums_to_monthly_expenses_witness:
  "plainCategories (filter (\<lambda>e. type e = ''expense'')
      (monthlyEntries (calculations parseISO_date household ''2024-01'')))
   \<and> wholeAmounts (filter (\<lambda>e. type e = ''expense'')
      (monthlyEntries (calculations parseISO_date household ''2024-01'')))
   \<and> categoryBreakdown (calculations parseISO_date household ''2024-01'')
       = [(''Food'', Num (Finite 170)), (''Transport'', Num (Finite 50))]
   \<and> sumValues (categoryBreakdown (calculations parseISO_date household ''2024-01''))
       = Num (Finite 220)
   \<and> monthlyExpenses (calculations parseISO_date household ''2024-01'') = Finite 220
   \<and> plainCategories (filter (\<lambda>e. type e = ''expense'')
      (monthlyEntries (calculations parseISO_date snacks ''2024-01'')))
   \<and> boundedAmounts 0 (filter (\<lambda>e. type e = ''expense'')
      (monthlyEntries (calculations parseISO_date snacks ''2024-01'')))
   \<and> sumValues (categoryBreakdown (calculations parseISO_date snacks ''2024-01''))
       = Num (Finite (3152519739159347 / 4503599627370496))
   \<and> monthlyExpenses (calculations parseISO_date snacks ''2024-01'')
       = Finite (6305039478318695 / 9007199254740992)
   \<and> close (of_nat (3 * 3) * pow2 (0 - 54)) (Finite (3152519739159347 / 4503599627370496))
       (Finite (6305039478318695 / 9007199254740992))"
proof -
  have hp: "plainCategories (filter (\<lambda>e. type e = ''expense'')
      (monthlyEntries (calculations parseISO_date household ''2024-01'')))"
    unfolding household_month
    by (simp add: household_def plainCategories_def inherited_def Object_prototype_methods_def)
  have hw: "wholeAmounts (filter (\<lambda>e. type e = ''expense'')
      (monthlyEntries (calculations parseISO_date household ''2024-01'')))"
    unfolding household_month
    by (simp add: household_def wholeAmounts_def units_def is_whole_def number_units_def
        parse_amounts)
  have sp: "plainCategories (filter (\<lambda>e. type e = ''expense'')
      (monthlyEntries (calculations parseISO_date snacks ''2024-01'')))"
    unfolding snacks_month
    by (simp add: snacks_def january_def plainCategories_def inherited_def
        Object_prototype_methods_def)
  have sb: "boundedAmounts 0 (filter (\<lambda>e. type e = ''expense'')
      (monthlyEntries (calculations parseISO_date snacks ''2024-01'')))"
    unfolding snacks_month
    by (simp add: snacks_def january_def boundedAmounts_def exact_amount_def is_finite_def
        number_value_def parse_amounts pow2_def)
  from breakdown_sums_to_monthly_expenses [OF hp, where K = 0]
    breakdown_sums_to_monthly_expenses [OF sp, where K = 0] hp hw sp sb
  show ?thesis
    by (simp add: household_totals household_sumValues snacks_totals snacks_sumValues
        close_def pow2_def)
qed

text \<open>
  Expenses of 0.10 (Food), 0.20 (Transport) and 0.40 (Food): the monthly total is
  \<open>(0.1 + 0.2) + 0.4 = 0.7000000000000001\<close>, the breakdown adds up to
  \<open>(0.1 + 0.4) + 0.2 = 0.7\<close>.
\<close>

theorem breakdown_sum_counterexample:
  "sumValues (categoryBreakdown (calculations parseISO_date
       [january ''expense'' ''0.10'' ''Food'', january ''expense'' ''0.20'' ''Transport'',
        january ''expense'' ''0.40'' ''Food''] ''2024-01''))
   \<noteq> Num (monthlyExpenses (calculations parseISO_date
       [january ''expense'' ''0.10'' ''Food'', january ''expense'' ''0.20'' ''Transport'',
        january ''expense'' ''0.40'' ''Food''] ''2024-01''))"
proof -
  have bd: "categoryBreakdown (calculations parseISO_date
       [january ''expense'' ''0.10'' ''Food'', january ''expense'' ''0.20'' ''Transport'',
        january ''expense'' ''0.40'' ''Food''] ''2024-01'')
      = [(''Food'', Num (Finite (1 / 2))),
         (''Transport'', Num (Finite (3602879701896397 / 18014398509481984)))]"
    unfolding calculations_fields(6) january_month by (simp add: breakdown_eval january_def)
  have me: "monthlyExpenses (calculations parseISO_date
       [january ''expense'' ''0.10'' ''Food'', january ''expense'' ''0.20'' ''Transport'',
        january ''expense'' ''0.40'' ''Food''] ''2024-01'')
      = Finite (6305039478318695 / 9007199254740992)"
    unfolding calculations_fields(5) january_month by (simp add: sum_eval january_def)
  show ?thesis
    unfolding bd me snacks_sumValues by simp
qed

text \<open>
  Categories that name a property of \<open>Object.prototype\<close>. An expense of 5.00 in the
  category \<open>__proto__\<close> leaves the breakdown empty. Expenses of 5.00 and 7.00 in the
  category \<open>toString\<close> are concatenated to the text of that function, in the order of
  the ledger. A category that is an array index is listed before the others.
\<close>

lemma breakdown_of_proto:
  "categoryBreakdown (calculations parseISO_date
       [january ''expense'' ''5.00'' ''__proto__''] ''2024-01'') = []
   \<and> monthlyExpenses (calculations parseISO_date
       [january ''expense'' ''5.00'' ''__proto__''] ''2024-01'') = Finite 5"
proof -
  have "categoryBreakdown (calculations parseISO_date
       [january ''expense'' ''5.00'' ''__proto__''] ''2024-01'') = []"
    unfolding calculations_fields(6) january_month by (simp add: breakdown_eval january_def)
  moreover have "monthlyExpenses (calculations parseISO_date
       [january ''expense'' ''5.00'' ''__proto__''] ''2024-01'') = Finite 5"
    unfolding calculations_fields(5) january_month by (simp add: sum_eval january_def)
  ultimately show ?thesis by simp
qed

lemma breakdown_of_toString:
  "categoryBreakdown (calculations parseISO_date
       [january ''expense'' ''5.00'' ''toString'', january ''expense'' ''7.00'' ''toString'']
       ''2024-01'')
     = [(''toString'', Str ''function toString() { [native code] }57'')]"
  "categoryBreakdown (calculations parseISO_date
       [january ''expense'' ''7.00'' ''toString'', january ''expense'' ''5.00'' ''toString'']
       ''2024-01'')
     = [(''toString'', Str ''function toString() { [native code] }75'')]"
  unfolding calculations_fields(6) january_month
  by (simp_all add: breakdown_eval january_def function_source_def Number_toString_small)

lemma breakdown_of_index:
  "Object_keys (categoryBreakdown (calculations parseISO_date
       [january ''expense'' ''5.00'' ''Food'', january ''expense'' ''7.00'' ''2024'']
       ''2024-01'')) = [''2024'', ''Food'']"
  "sumValues (categoryBreakdown (calculations parseISO_date
       [january ''expense'' ''5.00'' ''Food'', january ''expense'' ''7.00'' ''2024'']
       ''2024-01'')) = Num (Finite 12)"
proof -
  have bd: "categoryBreakdown (calculations parseISO_date
       [january ''expense'' ''5.00'' ''Food'', january ''expense'' ''7.00'' ''2024'']
       ''2024-01'') = [(''Food'', Num (Finite 5)), (''2024'', Num (Finite 7))]"
    unfolding calculations_fields(6) january_month by (simp add: breakdown_eval january_def)
  show "Object_keys (categoryBreakdown (calculations parseISO_date
       [january ''expense'' ''5.00'' ''Food'', january ''expense'' ''7.00'' ''2024'']
       ''2024-01'')) = [''2024'', ''Food'']"
    unfolding bd
    by (simp add: Object_keys_def own_properties_def is_array_index_def is_digit_def
        digits_val_def digit_val_def)
  show "sumValues (categoryBreakdown (calculations parseISO_date
       [january ''expense'' ''5.00'' ''Food'', january ''expense'' ''7.00'' ''2024'']
       ''2024-01'')) = Num (Finite 12)"
    unfolding bd by (simp add: sumValues_eval digits_val_def digit_val_def)
qed

subsection \<open>Permuted ledgers\<close>

lemma close_mono: "close d a b \<Longrightarrow> d \<le> d' \<Longrightarrow> close d' a b"
  by (auto simp: close_def split: number.splits)

lemma scaled_mono: "n \<le> n' \<Longrightarrow> of_nat n * pow2 k \<le> of_nat n' * pow2 k"
proof -
  assume "n \<le> n'"
  then have "(of_nat n :: rat) \<le> of_nat n'"
    by (simp only: of_nat_le_iff)
  then show ?thesis
    using pow2_pos [of k] by (intro mult_right_mono) simp_all
qed

lemma category_of_permuted_whole:
  assumes p: "mset xs' = mset xs" and w: "wholeAmounts xs"
    and c: "c \<notin> set Object_prototype_methods"
  shows "map_of (foldl addCategory [] xs') c = map_of (foldl addCategory [] xs) c"
proof (cases "c = ''__proto__''")
  case True
  then show ?thesis by (simp add: map_of_foldl_addCategory_proto)
next
  case False
  with c have i: "\<not> inherited c" by (simp add: inherited_def)
  have w': "wholeAmounts xs'"
    using wholeAmounts_perm [OF p] w by simp
  show ?thesis
    using sum_perm [OF p, of units "\<lambda>e. category e = c"]
      filter_empty_perm [OF p, of "\<lambda>e. category e = c"]
    by (simp add: category_sum_whole [OF w i] category_sum_whole [OF w' i])
qed

lemma category_of_permuted_close:
  assumes p: "mset xs' = mset xs" and b: "boundedAmounts K xs"
    and c: "c \<notin> set Object_prototype_methods"
  shows "rel_option (\<lambda>v w. close (of_nat (length xs) * pow2 (K - 53)) (number_of v) (number_of w))
           (map_of (foldl addCategory [] xs') c) (map_of (foldl addCategory [] xs) c)"
proof (cases "c = ''__proto__''")
  case True
  then show ?thesis by (simp add: map_of_foldl_addCategory_proto)
next
  case False
  with c have "\<not> inherited c" by (simp add: inherited_def)
  with p b show ?thesis by (rule close_category)
qed

text \<open>
  C4. For a permuted ledger and a category \<open>c\<close> that names no method of
  \<open>Object.prototype\<close>: every aggregate (total income, total expenses, balance, monthly
  income, monthly expenses and the sum of category \<open>c\<close>) equals that of the original
  ledger when the amounts are whole numbers whose absolute values add up to at most
  \<open>2 ^ 53\<close>; when the \<open>n\<close> amounts are finite and the sum of their absolute values
  stays below \<open>2 ^ K\<close>, every aggregate is within \<open>(n + 1) * 2 ^ (K - 53)\<close> of that
  of the original ledger, and category \<open>c\<close> has a sum in both breakdowns or in
  neither. The monthly entries are the same up to order. (The aggregates are not equal
  in general, see the counterexample.)
\<close>

theorem totals_of_a_permuted_ledger:
  assumes perm: "mset es' = mset es" and c: "c \<notin> set Object_prototype_methods"
  shows "(wholeAmounts es \<longrightarrow>
        totalIncome (calculations parseISO es' m) = totalIncome (calculations parseISO es m)
      \<and> totalExpenses (calculations parseISO es' m) = totalExpenses (calculations parseISO es m)
      \<and> balance (calculations parseISO es' m) = balance (calculations parseISO es m)
      \<and> monthlyIncome (calculations parseISO es' m) = monthlyIncome (calculations parseISO es m)
      \<and> monthlyExpenses (calculations parseISO es' m)
          = monthlyExpenses (calculations parseISO es m)
      \<and> map_of (categoryBreakdown (calculations parseISO es' m)) c
          = map_of (categoryBreakdown (calculations parseISO es m)) c)
    \<and> (boundedAmounts K es \<longrightarrow>
        close (of_nat (length es + 1) * pow2 (K - 53))
          (totalIncome (calculations parseISO es' m)) (totalIncome (calculations parseISO es m))
      \<and> close (of_nat (length es + 1) * pow2 (K - 53))
          (totalExpenses (calculations parseISO es' m))
          (totalExpenses (calculations parseISO es m))
      \<and> close (of_nat (length es + 1) * pow2 (K - 53))
          (balance (calculations parseISO es' m)) (balance (calculations parseISO es m))
      \<and> close (of_nat (length es + 1) * pow2 (K - 53))
          (monthlyIncome (calculations parseISO es' m))
          (monthlyIncome (calculations parseISO es m))
      \<and> close (of_nat (length es + 1) * pow2 (K - 53))
          (monthlyExpenses (calculations parseISO es' m))
          (monthlyExpenses (calculations parseISO es m))
      \<and> rel_option (\<lambda>v w. close (of_nat (length es + 1) * pow2 (K - 53))
                             (number_of v) (number_of w))
          (map_of (categoryBreakdown (calculations parseISO es' m)) c)
          (map_of (categoryBreakdown (calculations parseISO es m)) c))
    \<and> mset (monthlyEntries (calculations parseISO es' m))
        = mset (monthlyEntries (calculations parseISO es m))"
proof -
  define inMonth :: "entry \<Rightarrow> bool" where
    "inMonth = (\<lambda>entry. isSameMonth (parseISO (date entry)) (parseISO (m @ ''-01'')))"
  define isExpense :: "entry \<Rightarrow> bool" where "isExpense = (\<lambda>entry. type entry = ''expense'')"
  define d where "d = of_nat (length es + 1) * pow2 (K - 53)"
  have mp: "mset (filter inMonth es') = mset (filter inMonth es)"
    using perm by simp
  have xp: "mset (filter isExpense (filter inMonth es'))
      = mset (filter isExpense (filter inMonth es))"
    using mp by (simp del: filter_filter)
  have f: "calculations parseISO xs m =
      \<lparr>totalIncome = sumOfType ''income'' xs,
       totalExpenses = sumOfType ''expense'' xs,
       balance = js_sub (sumOfType ''income'' xs) (sumOfType ''expense'' xs),
       monthlyIncome = sumOfType ''income'' (filter inMonth xs),
       monthlyExpenses = sumOfType ''expense'' (filter inMonth xs),
       monthlyEntries = filter inMonth xs,
       categoryBreakdown = foldl addCategory [] (filter isExpense (filter inMonth xs))\<rparr>" for xs
    by (simp add: calculations_def Let_def inMonth_def isExpense_def)
  have A: "sumOfType ''income'' es' = sumOfType ''income'' es
      \<and> sumOfType ''expense'' es' = sumOfType ''expense'' es
      \<and> js_sub (sumOfType ''income'' es') (sumOfType ''expense'' es')
          = js_sub (sumOfType ''income'' es) (sumOfType ''expense'' es)
      \<and> sumOfType ''income'' (filter inMonth es') = sumOfType ''income'' (filter inMonth es)
      \<and> sumOfType ''expense'' (filter inMonth es') = sumOfType ''expense'' (filter inMonth es)
      \<and> map_of (foldl addCategory [] (filter isExpense (filter inMonth es'))) c
          = map_of (foldl addCategory [] (filter isExpense (filter inMonth es))) c"
    if whole: "wholeAmounts es"
  proof -
    have whole': "wholeAmounts es'"
      using wholeAmounts_perm [OF perm] whole by simp
    have wm: "wholeAmounts (filter inMonth es)" "wholeAmounts (filter inMonth es')"
      using whole whole' by (simp_all add: wholeAmounts_filter)
    have wx: "wholeAmounts (filter isExpense (filter inMonth es))"
      using wm by (simp add: wholeAmounts_filter del: filter_filter)
    have tot: "sumOfType t es' = sumOfType t es" for t
      using sum_perm [OF perm, of units "\<lambda>e. type e = t"]
      by (simp add: sumOfType_whole whole whole')
    have mon: "sumOfType t (filter inMonth es') = sumOfType t (filter inMonth es)" for t
      using sum_perm [OF mp, of units "\<lambda>e. type e = t"]
      by (simp add: sumOfType_whole wm)
    have cat: "map_of (foldl addCategory [] (filter isExpense (filter inMonth es'))) c
        = map_of (foldl addCategory [] (filter isExpense (filter inMonth es))) c"
      using xp wx c by (rule category_of_permuted_whole)
    show ?thesis
      by (simp only: tot mon cat simp_thms)
  qed
  have B: "close d (sumOfType ''income'' es') (sumOfType ''income'' es)
      \<and> close d (sumOfType ''expense'' es') (sumOfType ''expense'' es)
      \<and> close d (js_sub (sumOfType ''income'' es') (sumOfType ''expense'' es'))
          (js_sub (sumOfType ''income'' es) (sumOfType ''expense'' es))
      \<and> close d (sumOfType ''income'' (filter inMonth es')) (sumOfType ''income'' (filter inMonth es))
      \<and> close d (sumOfType ''expense'' (filter inMonth es'))
          (sumOfType ''expense'' (filter inMonth es))
      \<and> rel_option (\<lambda>v w. close d (number_of v) (number_of w))
          (map_of (foldl addCategory [] (filter isExpense (filter inMonth es'))) c)
          (map_of (foldl addCategory [] (filter isExpense (filter inMonth es))) c)"
    if b: "boundedAmounts K es"
  proof -
    have bm: "boundedAmounts K (filter inMonth es)"
      using b by (rule bounded_filter)
    have bx: "boundedAmounts K (filter isExpense (filter inMonth es))"
      using bm by (rule bounded_filter)
    have le: "of_nat (length (filter P (filter Q es))) * pow2 (K - 53) \<le> d" for P Q
      unfolding d_def
      by (rule scaled_mono) (simp add: le_SucI order_trans [OF length_filter_le length_filter_le]
          del: filter_filter)
    have le1: "of_nat (length (filter P es)) * pow2 (K - 53) \<le> d" for P
      unfolding d_def by (rule scaled_mono) (simp add: le_SucI)
    have le0: "of_nat (length es + 1) * pow2 (K - 53) \<le> d"
      by (simp add: d_def)
    have lex: "of_nat (length (filter isExpense (filter inMonth es))) * pow2 (K - 53) \<le> d"
      by (rule le)
    have tot: "close d (sumOfType t es') (sumOfType t es)" for t
      using close_sumOfType [OF perm b, of t] le1 by (rule close_mono)
    have mon: "close d (sumOfType t (filter inMonth es')) (sumOfType t (filter inMonth es))" for t
      using close_sumOfType [OF mp bm, of t] le by (rule close_mono)
    have bal: "close d (js_sub (sumOfType ''income'' es') (sumOfType ''expense'' es'))
        (js_sub (sumOfType ''income'' es) (sumOfType ''expense'' es))"
      using close_balance [OF perm b] le0 by (rule close_mono)
    have cat: "rel_option (\<lambda>v w. close d (number_of v) (number_of w))
        (map_of (foldl addCategory [] (filter isExpense (filter inMonth es'))) c)
        (map_of (foldl addCategory [] (filter isExpense (filter inMonth es))) c)"
      using category_of_permuted_close [OF xp bx c] lex
      by (auto elim!: option.rel_mono_strong intro: close_mono)
    show ?thesis
      using tot mon bal cat by simp
  qed
  from A B mp show ?thesis
    unfolding f d_def by simp
qed

theorem totals_of_a_permuted_ledger_witness:
  "mset (rev household) = mset household
   \<and> ''Food'' \<notin> set Object_prototype_methods
   \<and> wholeAmounts household
   \<and> totalIncome (calculations parseISO_date (rev household) ''2024-01'') = Finite 1000
   \<and> totalExpenses (calculations parseISO_date (rev household) ''2024-01'') = Finite 270
   \<and> balance (calculations parseISO_date (rev household) ''2024-01'') = Finite 730
   \<and> monthlyIncome (calculations parseISO_date (rev household) ''2024-01'') = Finite 1000
   \<and> monthlyExpenses (calculations parseISO_date (rev household) ''2024-01'') = Finite 220
   \<and> map_of (categoryBreakdown (calculations parseISO_date (rev household) ''2024-01'')) ''Food''
       = Some (Num (Finite 170))
   \<and> mset (rev snacks) = mset snacks
   \<and> boundedAmounts 1 snacks
   \<and> totalIncome (calculations parseISO_date (rev snacks) ''2024-01'')
       = Finite (5404319552844595 / 9007199254740992)
   \<and> totalIncome (calculations parseISO_date snacks ''2024-01'')
       = Finite (1351079888211149 / 2251799813685248)
   \<and> close (of_nat (length snacks + 1) * pow2 (1 - 53))
       (Finite (5404319552844595 / 9007199254740992))
       (Finite (1351079888211149 / 2251799813685248))
   \<and> close (of_nat (length snacks + 1) * pow2 (1 - 53))
       (balance (calculations parseISO_date (rev snacks) ''2024-01''))
       (balance (calculations parseISO_date snacks ''2024-01''))
   \<and> map_of (categoryBreakdown (calculations parseISO_date (rev snacks) ''2024-01'')) ''Food''
       = Some (Num (Finite (1 / 2)))"
proof -
  have p: "mset (rev household) = mset household" "mset (rev snacks) = mset snacks"
    by simp_all
  have c: "''Food'' \<notin> set Object_prototype_methods"
    by (simp add: Object_prototype_methods_def)
  from totals_of_a_permuted_ledger
      [OF p(1) c, where K = 1 and parseISO = parseISO_date and m = "''2024-01''"]
    totals_of_a_permuted_ledger
      [OF p(2) c, where K = 1 and parseISO = parseISO_date and m = "''2024-01''"]
    p c household_whole snacks_bounded
  show ?thesis
    by (simp add: household_totals household_reversed_totals snacks_totals
        snacks_reversed_totals)
qed

text \<open>
  Incomes of 0.10, 0.20 and 0.30 add up to 0.6000000000000001 in this order and to 0.6
  in the reverse order; incomes of 9007199254740992.00, 1.00 and 1.00 add up to
  9007199254740992.00 in this order and to 9007199254740994.00 in the reverse order.
\<close>

theorem permuted_totals_counterexample:
  "mset [january ''income'' ''0.30'' ''Gift'', january ''income'' ''0.20'' ''Gift'',
         january ''income'' ''0.10'' ''Gift'']
     = mset [january ''income'' ''0.10'' ''Gift'', january ''income'' ''0.20'' ''Gift'',
         january ''income'' ''0.30'' ''Gift'']
   \<and> totalIncome (calculations parseISO_date
        [january ''income'' ''0.30'' ''Gift'', january ''income'' ''0.20'' ''Gift'',
         january ''income'' ''0.10'' ''Gift''] ''2024-01'')
     \<noteq> totalIncome (calculations parseISO_date
        [january ''income'' ''0.10'' ''Gift'', january ''income'' ''0.20'' ''Gift'',
         january ''income'' ''0.30'' ''Gift''] ''2024-01'')
   \<and> toFixed2 (totalIncome (calculations parseISO_date
        [january ''income'' ''1.00'' ''Gift'', january ''income'' ''1.00'' ''Gift'',
         january ''income'' ''9007199254740992.00'' ''Gift''] ''2024-01''))
     \<noteq> toFixed2 (totalIncome (calculations parseISO_date
        [january ''income'' ''9007199254740992.00'' ''Gift'', january ''income'' ''1.00'' ''Gift'',
         january ''income'' ''1.00'' ''Gift''] ''2024-01''))"
proof -
  have a: "totalIncome (calculations parseISO_date
        [january ''income'' ''0.30'' ''Gift'', january ''income'' ''0.20'' ''Gift'',
         january ''income'' ''0.10'' ''Gift''] ''2024-01'')
      = Finite (5404319552844595 / 9007199254740992)"
    by (simp add: calculations_fields(1) sum_eval january_def)
  have b: "totalIncome (calculations parseISO_date
        [january ''income'' ''0.10'' ''Gift'', january ''income'' ''0.20'' ''Gift'',
         january ''income'' ''0.30'' ''Gift''] ''2024-01'')
      = Finite (1351079888211149 / 2251799813685248)"
    by (simp add: calculations_fields(1) sum_eval january_def)
  have c: "totalIncome (calculations parseISO_date
        [january ''income'' ''1.00'' ''Gift'', january ''income'' ''1.00'' ''Gift'',
         january ''income'' ''9007199254740992.00'' ''Gift''] ''2024-01'')
      = Finite 9007199254740994"
    by (simp add: calculations_fields(1) sum_eval january_def)
  have d: "totalIncome (calculations parseISO_date
        [january ''income'' ''9007199254740992.00'' ''Gift'', january ''income'' ''1.00'' ''Gift'',
         january ''income'' ''1.00'' ''Gift''] ''2024-01'')
      = Finite 9007199254740992"
    by (simp add: calculations_fields(1) sum_eval january_def)
  have e: "toFixed2 (Finite 9007199254740994) = ''9007199254740994.00''"
    "toFixed2 (Finite 9007199254740992) = ''9007199254740992.00''"
    by (simp_all add: toFixed2_eval)
  show ?thesis
    unfolding a b c d e by simp
qed

end
